theory Spec2Isabelle
  imports Main "HOL-Library.DAList" "HOL-Library.Char_ord" "HOL-Library.List_Lexorder"
begin

section \<open>The RuleSet reconciler (pkg/controllers/ruleset/ruleset_controller.go)\<close>

text \<open>
  A shallow embedding of the reconcile pass of the RuleSet controller. Go structs are
  records, a Go map that the code ranges over is an association list with distinct keys
  (\<open>('k, 'v) alist\<close>; the order of the list is the order in which the \<open>range\<close>
  statement visits the map, which Go leaves unspecified, so a statement about every
  association list is a statement about every order), a Go map that is only looked up is
  a partial function, a slice is a list (a nil slice and an empty slice are both \<open>[]\<close>,
  which is how \<open>equality.Semantic.DeepEqual\<close> compares them), a pointer to a struct is
  an \<open>option\<close> where the code tests it for nil and the struct itself otherwise. The
  object store, the expectation trackers, the event recorder and the notification queues
  are an explicit \<open>world\<close> that every operation takes and returns.
\<close>

subsection \<open>Errors\<close>

text \<open>
  Go \<open>error\<close> values. \<open>errors.IsNotFound\<close> and \<open>errors.IsConflict\<close> recognise the
  two API status errors; \<open>Errorf\<close> is an error built by \<open>fmt.Errorf\<close> with the verbs
  \<open>%s\<close>/\<open>%v\<close>, which keeps the text of the cause and not its identity.
\<close>

datatype error = NotFound | Conflict | Other string | Errorf string error

fun IsNotFound :: "error \<Rightarrow> bool" where
  "IsNotFound NotFound = True"
| "IsNotFound _ = False"

fun IsConflict :: "error \<Rightarrow> bool" where
  "IsConflict Conflict = True"
| "IsConflict _ = False"

subsection \<open>API types\<close>

text \<open>
  Modelled from the spec: the declarations of \<open>appsv1alpha1.RuleState\<close>,
  \<open>appsv1alpha1.RejectInfo\<close>, \<open>appsv1alpha1.Detail\<close>, \<open>appsv1alpha1.RuleSetStatus\<close>
  and \<open>processor.ProcessResult\<close> are not part of the source file; the fields are the ones
  the controller reads and writes, with the types the spec's data model gives them. A rule
  state is only appended and compared, so it is represented by a string.
  \<open>time.Duration\<close> and \<open>metav1.Time\<close> are integers (nanoseconds).
\<close>

type_synonym RuleState = string

record RejectInfo =
  RuleName :: string
  Reason :: string

record Detail =
  Name :: string
  Stage :: string
  Passed :: bool
  PassedRules :: "string list"
  RejectInfo :: "RejectInfo list"

record ProcessResult =
  Interval :: "int option"
  RuleStates :: "RuleState list"
  Retry :: bool
  PassRules :: "(string, string set) alist"
  Rejected :: "string \<rightharpoonup> RejectInfo"

record RuleSetStatus =
  Targets :: "string list"
  ObservedGeneration :: int
  Details :: "Detail list"
  RuleStates :: "RuleState list"
  UpdateTime :: "int option"

text \<open>
  \<open>metav1.ObjectMeta\<close>, embedded in both \<open>corev1.Pod\<close> and \<open>appsv1alpha1.RuleSet\<close>.
  Resource versions are opaque strings in the API; the model uses numbers, and a
  successful write increments the version.
\<close>

record ObjectMeta =
  Name :: string
  Namespace :: string
  ResourceVersion :: nat
  Generation :: int
  DeletionTimestamp :: "int option"
  Labels :: "string \<rightharpoonup> string"
  Finalizers :: "string list"

text \<open>
  Modelled from the spec: a target carries "an ownership annotation recording which
  policy claims it"; \<open>OwnerRuleSets\<close> is the content of that annotation, the names of
  the policies that own the pod.
\<close>

record Pod = ObjectMeta +
  OwnerRuleSets :: "string list"

record RuleSet = ObjectMeta +
  Status :: RuleSetStatus

subsection \<open>Collaborators: the store, the trackers, the queues\<close>

type_synonym NamespacedName = "string \<times> string"

text \<open>
  The two function values the controller hands to \<open>updateRuleSetOnPod\<close>. They are
  named by a datatype so that a recorded event can say which one was applied.
\<close>

datatype mutation = AddRuleSetAnno | MoveRulesetAnno

text \<open>What a pass does, in the order it does it (a ghost log carried by the world).\<close>

datatype event =
    EvGetRuleSet NamespacedName
  | EvListPods string
  | EvGetPod NamespacedName
  | EvMutate mutation NamespacedName
  | EvUpdatePod NamespacedName
  | EvUpdateRuleSet NamespacedName
  | EvStatusUpdate NamespacedName
  | EvExpectUpdate string nat
  | EvDeleteExpectations string
  | EvRecorder string
  | EvProcess string

text \<open>A \<open>workqueue.DelayingInterface\<close>: whether it is shutting down, and the keys added.\<close>

record queue =
  ShuttingDown :: bool
  added :: "NamespacedName list"

text \<open>
  The world of a pass. \<open>rulesets\<close> and \<open>pods\<close> are the objects in the store;
  \<open>faults\<close> scripts the transport: each call of the store takes the head of the list,
  \<open>None\<close> lets the call through and \<open>Some err\<close> makes it fail with \<open>err\<close> (an empty
  script lets every call through). The two expectation tables are
  \<open>rulesetutils.RulesetVersionExpectation\<close> and \<open>rulesetutils.PodVersionExpectation\<close>;
  \<open>podEventQueues\<close> is the package variable of that name.
\<close>

record world =
  rulesets :: "NamespacedName \<rightharpoonup> RuleSet"
  pods :: "Pod list"
  faults :: "error option list"
  RulesetVersionExpectation :: "string \<rightharpoonup> nat"
  PodVersionExpectation :: "string \<rightharpoonup> nat"
  podEventQueues :: "queue list"
  trace :: "event list"

text \<open>
  The fields of \<open>RuleSetReconciler\<close> the pass uses. \<open>GetStages\<close> is the stage list of
  \<open>register.Policy\<close>, listed in the order in which the stage goroutines of \<open>process\<close>
  enter the critical section; \<open>Process\<close> is
  \<open>processor.NewRuleProcessor(r.Client, stage, rs, r.Logger).Process(pods)\<close>;
  \<open>Matches\<close> is the label selector of the RuleSet applied to a pod;
  \<open>DefaultRetrySteps\<close> is \<open>retry.DefaultRetry.Steps\<close>; \<open>Now\<close> is \<open>time.Now()\<close>.
  All five are outside the source file and are parameters of the model.
\<close>

record RuleSetReconciler =
  GetStages :: "string list"
  Process :: "string \<Rightarrow> RuleSet \<Rightarrow> (string, Pod) alist \<Rightarrow> ProcessResult"
  Matches :: "RuleSet \<Rightarrow> Pod \<Rightarrow> bool"
  DefaultRetrySteps :: nat
  Now :: int

definition log :: "event \<Rightarrow> world \<Rightarrow> world" where
  "log e w = w\<lparr>trace := trace w @ [e]\<rparr>"

definition transport :: "world \<Rightarrow> error option \<times> world" where
  "transport w = (case faults w of [] \<Rightarrow> (None, w) | f # fs \<Rightarrow> (f, w\<lparr>faults := fs\<rparr>))"

definition ObjectKey :: "'a ObjectMeta_scheme \<Rightarrow> string" where
  "ObjectKey obj = Namespace obj @ ''/'' @ Name obj"

definition findPod :: "NamespacedName \<Rightarrow> Pod list \<Rightarrow> Pod option" where
  "findPod key ps = find (\<lambda>p. (Namespace p, Name p) = key) ps"

text \<open>\<open>r.Get\<close> of the RuleSet (line 115).\<close>

definition GetRuleSet :: "NamespacedName \<Rightarrow> world \<Rightarrow> (error + RuleSet) \<times> world" where
  "GetRuleSet key w =
     (case transport (log (EvGetRuleSet key) w) of
        (Some err, w1) \<Rightarrow> (Inl err, w1)
      | (None, w1) \<Rightarrow>
          (case rulesets w1 key of
             None \<Rightarrow> (Inl NotFound, w1)
           | Some ruleSet \<Rightarrow> (Inr ruleSet, w1)))"

text \<open>\<open>r.List\<close> of the pods of the RuleSet's namespace that its selector matches (line 130).\<close>

definition ListPods :: "RuleSetReconciler \<Rightarrow> RuleSet \<Rightarrow> world \<Rightarrow> (error + Pod list) \<times> world" where
  "ListPods r ruleSet w =
     (case transport (log (EvListPods (Namespace ruleSet)) w) of
        (Some err, w1) \<Rightarrow> (Inl err, w1)
      | (None, w1) \<Rightarrow>
          (Inr (filter (\<lambda>p. Namespace p = Namespace ruleSet \<and> Matches r ruleSet p) (pods w1)), w1))"

text \<open>\<open>r.Get\<close> of a pod (lines 305 and 320).\<close>

definition GetPod :: "NamespacedName \<Rightarrow> world \<Rightarrow> (error + Pod) \<times> world" where
  "GetPod key w =
     (case transport (log (EvGetPod key) w) of
        (Some err, w1) \<Rightarrow> (Inl err, w1)
      | (None, w1) \<Rightarrow>
          (case findPod key (pods w1) of
             None \<Rightarrow> (Inl NotFound, w1)
           | Some pod \<Rightarrow> (Inr pod, w1)))"

text \<open>
  \<open>r.Update\<close> of a pod (line 327): not found when the pod is gone, a conflict when the
  version written is not the stored one, and otherwise the pod is stored under the next
  version, which the caller's object receives.
\<close>

definition UpdatePod :: "Pod \<Rightarrow> world \<Rightarrow> error option \<times> Pod \<times> world" where
  "UpdatePod pod w =
     (case transport (log (EvUpdatePod (Namespace pod, Name pod)) w) of
        (Some err, w1) \<Rightarrow> (Some err, pod, w1)
      | (None, w1) \<Rightarrow>
          (case findPod (Namespace pod, Name pod) (pods w1) of
             None \<Rightarrow> (Some NotFound, pod, w1)
           | Some stored \<Rightarrow>
               if ResourceVersion stored \<noteq> ResourceVersion pod then (Some Conflict, pod, w1)
               else
                 (let pod' = pod\<lparr>ResourceVersion := Suc (ResourceVersion pod)\<rparr> in
                  (None, pod',
                   w1\<lparr>pods := map (\<lambda>p. if (Namespace p, Name p) = (Namespace pod, Name pod)
                                        then pod' else p) (pods w1)\<rparr>))))"

text \<open>
  \<open>r.Status().Update\<close> of the RuleSet (line 220): writes the status of the caller's
  object over the stored one.
\<close>

definition StatusUpdate :: "RuleSet \<Rightarrow> world \<Rightarrow> error option \<times> RuleSet \<times> world" where
  "StatusUpdate ruleSet w =
     (case transport (log (EvStatusUpdate (Namespace ruleSet, Name ruleSet)) w) of
        (Some err, w1) \<Rightarrow> (Some err, ruleSet, w1)
      | (None, w1) \<Rightarrow>
          (case rulesets w1 (Namespace ruleSet, Name ruleSet) of
             None \<Rightarrow> (Some NotFound, ruleSet, w1)
           | Some stored \<Rightarrow>
               if ResourceVersion stored \<noteq> ResourceVersion ruleSet then (Some Conflict, ruleSet, w1)
               else
                 (let v = Suc (ResourceVersion stored) in
                  (None, ruleSet\<lparr>ResourceVersion := v\<rparr>,
                   w1\<lparr>rulesets := (rulesets w1)((Namespace ruleSet, Name ruleSet) \<mapsto>
                          stored\<lparr>ResourceVersion := v, Status := Status ruleSet\<rparr>)\<rparr>))))"

text \<open>
  Modelled from the spec: \<open>utils.AddFinalizer\<close> and \<open>utils.RemoveFinalizer\<close> are not
  part of the source file. The spec has the engine "ensuring the cleanup finalizer is
  present (added if absent)" and, once cleanup is done, "remove the finalizer"; both are
  writes of the RuleSet's metadata to the store and fail as any write does.
\<close>

definition UpdateRuleSet :: "RuleSet \<Rightarrow> world \<Rightarrow> error option \<times> RuleSet \<times> world" where
  "UpdateRuleSet ruleSet w =
     (case transport (log (EvUpdateRuleSet (Namespace ruleSet, Name ruleSet)) w) of
        (Some err, w1) \<Rightarrow> (Some err, ruleSet, w1)
      | (None, w1) \<Rightarrow>
          (case rulesets w1 (Namespace ruleSet, Name ruleSet) of
             None \<Rightarrow> (Some NotFound, ruleSet, w1)
           | Some stored \<Rightarrow>
               if ResourceVersion stored \<noteq> ResourceVersion ruleSet then (Some Conflict, ruleSet, w1)
               else
                 (let v = Suc (ResourceVersion stored) in
                  (None, ruleSet\<lparr>ResourceVersion := v\<rparr>,
                   w1\<lparr>rulesets := (rulesets w1)((Namespace ruleSet, Name ruleSet) \<mapsto>
                          ruleSet\<lparr>ResourceVersion := v, Status := Status stored\<rparr>)\<rparr>))))"

definition AddFinalizer :: "RuleSet \<Rightarrow> string \<Rightarrow> world \<Rightarrow> error option \<times> RuleSet \<times> world" where
  "AddFinalizer ruleSet finalizer w =
     (if finalizer \<in> set (Finalizers ruleSet) then (None, ruleSet, w)
      else UpdateRuleSet (ruleSet\<lparr>Finalizers := Finalizers ruleSet @ [finalizer]\<rparr>) w)"

definition RemoveFinalizer :: "RuleSet \<Rightarrow> string \<Rightarrow> world \<Rightarrow> error option \<times> RuleSet \<times> world" where
  "RemoveFinalizer ruleSet finalizer w =
     (if finalizer \<notin> set (Finalizers ruleSet) then (None, ruleSet, w)
      else UpdateRuleSet (ruleSet\<lparr>Finalizers := removeAll finalizer (Finalizers ruleSet)\<rparr>) w)"

text \<open>
  Modelled from the spec: the expectation tracker is not part of the source file.
  \<open>SatisfiedExpectations(identity, observedVersion)\<close> "returns false if a prior write
  for this identity is still awaiting observation of its resulting version in the local
  view": the table keeps the version a write was issued from, and the write has been
  observed once the version seen is a later one. \<open>ExpectUpdate\<close> records the base
  version, \<open>DeleteExpectations\<close> clears the entry.
\<close>

definition SatisfiedExpectations :: "(string \<rightharpoonup> nat) \<Rightarrow> string \<Rightarrow> nat \<Rightarrow> bool" where
  "SatisfiedExpectations table key resourceVersion =
     (case table key of None \<Rightarrow> True | Some base \<Rightarrow> base < resourceVersion)"

definition ExpectUpdate :: "string \<Rightarrow> nat \<Rightarrow> world \<Rightarrow> world" where
  "ExpectUpdate key resourceVersion w =
     (log (EvExpectUpdate key resourceVersion) w)
       \<lparr>RulesetVersionExpectation := (RulesetVersionExpectation w)(key \<mapsto> resourceVersion)\<rparr>"

definition DeleteExpectations :: "string \<Rightarrow> world \<Rightarrow> world" where
  "DeleteExpectations key w =
     (log (EvDeleteExpectations key) w)
       \<lparr>RulesetVersionExpectation := (RulesetVersionExpectation w)(key := None)\<rparr>"

text \<open>
  Modelled from the spec: \<open>rulesetutils.AddRuleSetAnno\<close> and
  \<open>rulesetutils.MoveRulesetAnno\<close> are not part of the source file. They are the
  add-ownership and remove-ownership mutations, "idempotent (applying twice is a
  no-op)"; the result says whether the pod was changed and so has to be written.
\<close>

fun applyFn :: "mutation \<Rightarrow> Pod \<Rightarrow> string \<Rightarrow> bool \<times> Pod" where
  "applyFn AddRuleSetAnno pod name =
     (if name \<in> set (OwnerRuleSets pod) then (False, pod)
      else (True, pod\<lparr>OwnerRuleSets := OwnerRuleSets pod @ [name]\<rparr>))"
| "applyFn MoveRulesetAnno pod name =
     (if name \<in> set (OwnerRuleSets pod) then (True, pod\<lparr>OwnerRuleSets := removeAll name (OwnerRuleSets pod)\<rparr>)
      else (False, pod))"

text \<open>
  \<open>retry.RetryOnConflict(backoff, fn)\<close> of client-go: \<open>fn\<close> runs at most
  \<open>backoff.Steps\<close> times; a nil result or an error that is not a conflict ends the loop
  with that result, a conflict is remembered and the loop goes on; when the steps are
  used up the last conflict is the result. The state \<open>'s\<close> is what \<open>fn\<close> closes over.
\<close>

fun OnError :: "nat \<Rightarrow> (error \<Rightarrow> bool) \<Rightarrow> ('s \<Rightarrow> error option \<times> 's) \<Rightarrow> error option \<Rightarrow> 's \<Rightarrow> error option \<times> 's" where
  "OnError 0 retriable fn lastErr s = (lastErr, s)"
| "OnError (Suc steps) retriable fn lastErr s =
     (case fn s of
        (None, s') \<Rightarrow> (None, s')
      | (Some err, s') \<Rightarrow>
          if retriable err then OnError steps retriable fn (Some err) s'
          else (Some err, s'))"

definition RetryOnConflict :: "nat \<Rightarrow> ('s \<Rightarrow> error option \<times> 's) \<Rightarrow> 's \<Rightarrow> error option \<times> 's" where
  "RetryOnConflict steps fn s = OnError steps IsConflict fn None s"

subsection \<open>Ownership mutation on one target\<close>

text \<open>
  The closure handed to \<open>retry.RetryOnConflict\<close> (lines 319 to 333); its state is the
  caller's pod object and the world. A failed \<open>Get\<close> that is not a not-found is
  returned; the error of \<open>Update\<close> is tested for not-found and then dropped: both
  branches after the write return nil.
\<close>

definition updateAttempt :: "string \<Rightarrow> mutation \<Rightarrow> Pod \<times> world \<Rightarrow> error option \<times> (Pod \<times> world)" where
  "updateAttempt ruleSet fn s =
     (case s of (pod, w) \<Rightarrow>
      (case GetPod (Namespace pod, Name pod) w of
         (Inl err, w1) \<Rightarrow>
           if IsNotFound err then (None, (pod, w1)) else (Some err, (pod, w1))
       | (Inr live, w1) \<Rightarrow>
           (case applyFn fn live ruleSet of
              (changed, pod1) \<Rightarrow>
                (let w2 = log (EvMutate fn (Namespace live, Name live)) w1 in
                 if changed then
                   (case UpdatePod pod1 w2 of
                      (err, pod2, w3) \<Rightarrow>
                        if (case err of None \<Rightarrow> False | Some e \<Rightarrow> IsNotFound e)
                        then (None, (pod2, w3))
                        else (None, (pod2, w3)))
                 else (None, (pod1, w2))))))"

definition updateRuleSetOnPod ::
  "RuleSetReconciler \<Rightarrow> string \<Rightarrow> Pod \<Rightarrow> mutation \<Rightarrow> world \<Rightarrow> error option \<times> Pod \<times> world" where
  "updateRuleSetOnPod r ruleSet pod fn w =
     (case RetryOnConflict (DefaultRetrySteps r) (updateAttempt ruleSet fn) (pod, w) of
        (err, (pod1, w1)) \<Rightarrow> (err, pod1, w1))"

fun hasRunningPod :: "Pod list \<Rightarrow> bool" where
  "hasRunningPod [] = False"
| "hasRunningPod (pod # items) =
     (if DeletionTimestamp pod = None then True else hasRunningPod items)"

text \<open>\<open>cleanUpPod\<close> (lines 302 to 316): the loop over the recorded targets.\<close>

fun cleanUpTargets :: "RuleSetReconciler \<Rightarrow> RuleSet \<Rightarrow> string list \<Rightarrow> world \<Rightarrow> error option \<times> world" where
  "cleanUpTargets r ruleSet [] w = (None, w)"
| "cleanUpTargets r ruleSet (name # names) w =
     (case GetPod (Namespace ruleSet, name) w of
        (Inl err, w1) \<Rightarrow>
          if IsNotFound err then cleanUpTargets r ruleSet names w1 else (Some err, w1)
      | (Inr pod, w1) \<Rightarrow>
          (case updateRuleSetOnPod r (Name ruleSet) pod MoveRulesetAnno w1 of
             (Some err, pod1, w2) \<Rightarrow> (Some (Errorf ''fail to remove RuleSet on pod'' err), w2)
           | (None, pod1, w2) \<Rightarrow> cleanUpTargets r ruleSet names w2))"

definition cleanUpPod :: "RuleSetReconciler \<Rightarrow> RuleSet \<Rightarrow> world \<Rightarrow> error option \<times> world" where
  "cleanUpPod r ruleSet w = cleanUpTargets r ruleSet (Targets (Status ruleSet)) w"

subsection \<open>Merging the stage results\<close>

text \<open>
  The body of the loop of \<open>updateDetail\<close> (lines 347 to 366) for one entry of
  \<open>PassRules\<close>; \<open>rules.List()\<close> is the sorted list of the set.
\<close>

definition updateDetailEntry ::
  "ProcessResult \<Rightarrow> string \<Rightarrow> (string, Detail) alist \<Rightarrow> string \<times> string set \<Rightarrow> (string, Detail) alist" where
  "updateDetailEntry passRules stage details entry =
     (case entry of (po, rules) \<Rightarrow>
      (let rejectInfo =
             (case Rejected passRules po of
                Some rej \<Rightarrow> Some \<lparr>RuleName = RuleName rej, Reason = Reason rej\<rparr>
              | None \<Rightarrow> None);
           detail =
             (case DAList.lookup details po of
                Some d \<Rightarrow> d
              | None \<Rightarrow> \<lparr>Detail.Name = po, Stage = stage, Passed = False, PassedRules = [],
                          RejectInfo = []\<rparr>);
           detail = detail\<lparr>PassedRules := PassedRules detail @ sorted_list_of_set rules\<rparr>;
           detail =
             (case rejectInfo of
                Some ri \<Rightarrow> detail\<lparr>RejectInfo := RejectInfo detail @ [ri]\<rparr>
              | None \<Rightarrow> detail);
           detail = detail\<lparr>Passed := (RejectInfo detail = [])\<rparr>
       in DAList.update po detail details))"

definition updateDetail ::
  "(string, Detail) alist \<Rightarrow> ProcessResult \<Rightarrow> string \<Rightarrow> (string, Detail) alist" where
  "updateDetail details passRules stage =
     fold (\<lambda>entry ds. updateDetailEntry passRules stage ds entry) (DAList.impl_of (PassRules passRules)) details"

text \<open>
  The critical section of a stage goroutine of \<open>process\<close> (lines 249 to 260), on the
  four results the goroutines share.
\<close>

type_synonym merged = "bool \<times> int option \<times> (string, Detail) alist \<times> RuleState list"

definition mergeResult :: "string \<Rightarrow> ProcessResult \<Rightarrow> merged \<Rightarrow> merged" where
  "mergeResult currentStage res m =
     (case m of (shouldRetry, interval, details, ruleStates) \<Rightarrow>
      (let interval =
             (case Interval res of
                None \<Rightarrow> interval
              | Some i \<Rightarrow>
                  (case interval of
                     None \<Rightarrow> Some i
                   | Some cur \<Rightarrow> if cur > i then Some i else Some cur));
           ruleStates = ruleStates @ ProcessResult.RuleStates res;
           shouldRetry = (if Retry res then True else shouldRetry)
       in (shouldRetry, interval, updateDetail details res currentStage, ruleStates)))"

text \<open>
  \<open>process\<close> (lines 236 to 265). Every stage is evaluated on the same pods; the mutex
  makes each merge atomic, so the goroutines amount to one merge per stage, in the order
  in which they take the lock. \<open>wg.Wait\<close> returns when all have merged. The evaluation
  of a stage is taken to leave the world alone; the log records that it took place.
\<close>

fun processStages ::
  "RuleSetReconciler \<Rightarrow> RuleSet \<Rightarrow> (string, Pod) alist \<Rightarrow> string list \<Rightarrow> merged \<Rightarrow> world \<Rightarrow> merged \<times> world" where
  "processStages r rs ps [] m w = (m, w)"
| "processStages r rs ps (stage # stages) m w =
     processStages r rs ps stages (mergeResult stage (Process r stage rs ps) m) (log (EvProcess stage) w)"

definition process :: "RuleSetReconciler \<Rightarrow> RuleSet \<Rightarrow> (string, Pod) alist \<Rightarrow> world \<Rightarrow> merged \<times> world" where
  "process r rs ps w = processStages r rs ps (GetStages r) (False, None, DAList.empty, []) w"

subsection \<open>Change notification\<close>

definition addToEveryQueue :: "string \<Rightarrow> string \<Rightarrow> world \<Rightarrow> world" where
  "addToEveryQueue namespace name w =
     w\<lparr>podEventQueues :=
         map (\<lambda>q. if ShuttingDown q then q else q\<lparr>added := added q @ [(namespace, name)]\<rparr>)
           (podEventQueues w)\<rparr>"

text \<open>
  \<open>addQueues\<close> (lines 267 to 288). The elements of \<open>Details\<close> are taken to be non-nil,
  so \<open>equality.Semantic.DeepEqual\<close> on two of them is equality of the records.
\<close>

definition addQueues ::
  "RuleSet \<Rightarrow> (string, Detail) alist \<Rightarrow> (string, Detail) alist \<Rightarrow> world \<Rightarrow> world" where
  "addQueues rs details oldDetails w =
     (if length (podEventQueues w) = 0 then w
      else
        (let w1 =
               fold (\<lambda>entry w.
                       case entry of (name, old) \<Rightarrow>
                         (case DAList.lookup details name of
                            None \<Rightarrow> addToEveryQueue (Namespace rs) name w
                          | Some detail \<Rightarrow>
                              if old \<noteq> detail then addToEveryQueue (Namespace rs) name w else w))
                 (DAList.impl_of oldDetails) w
         in fold (\<lambda>entry w.
                    case entry of (name, detail) \<Rightarrow>
                      (case DAList.lookup oldDetails name of
                         None \<Rightarrow> addToEveryQueue (Namespace rs) name w
                       | Some old \<Rightarrow> w))
              (DAList.impl_of details) w1))"

subsection \<open>The status\<close>

definition equalStatus :: "RuleSetStatus \<Rightarrow> RuleSetStatus \<Rightarrow> bool" where
  "equalStatus updated current =
     (Targets updated = Targets current \<and>
      Details updated = Details current \<and>
      RuleStates updated = RuleStates current \<and>
      ObservedGeneration updated = ObservedGeneration current)"

text \<open>
  The snapshot built at lines 197 to 215: the keys of \<open>details\<close> in the order of the
  \<open>range\<close>, sorted by \<open>sort.Strings\<close>, then the detail of each key;
  \<open>selectedPodNames.List()\<close> is the sorted list of the set.
\<close>

definition newStatusOf ::
  "RuleSetReconciler \<Rightarrow> RuleSet \<Rightarrow> string set \<Rightarrow> (string, Detail) alist \<Rightarrow> RuleState list \<Rightarrow> RuleSetStatus" where
  "newStatusOf r ruleSet selectedPodNames details ruleStates =
     (let keys = sort (map fst (DAList.impl_of details));
          detailList = List.map_filter (DAList.lookup details) keys
      in \<lparr>Targets = sorted_list_of_set selectedPodNames,
          ObservedGeneration = Generation ruleSet,
          Details = detailList,
          RuleStates = ruleStates,
          UpdateTime = Some (Now r)\<rparr>)"

text \<open>
  Lines 217 to 225: the status is written only when it differs from the stored one; the
  expectation is armed before the write and cleared when the write fails. The caller's
  RuleSet carries the new status from then on.
\<close>

definition syncStatus :: "RuleSet \<Rightarrow> RuleSetStatus \<Rightarrow> world \<Rightarrow> error option \<times> RuleSet \<times> world" where
  "syncStatus ruleSet newStatus w =
     (if \<not> equalStatus newStatus (Status ruleSet) then
        (let w1 = ExpectUpdate (ObjectKey ruleSet) (ResourceVersion ruleSet) w;
             ruleSet1 = ruleSet\<lparr>Status := newStatus\<rparr>
         in case StatusUpdate ruleSet1 w1 of
              (Some err, ruleSet2, w2) \<Rightarrow> (Some err, ruleSet2, DeleteExpectations (ObjectKey ruleSet) w2)
            | (None, ruleSet2, w2) \<Rightarrow> (None, ruleSet2, w2))
      else (None, ruleSet, w))"

subsection \<open>The reconcile pass\<close>

definition cleanUpFinalizer :: string where
  "cleanUpFinalizer = ''ruleset.kafed.kusionstack.io/need-clean-up''"

definition rulesetTerminatingLabel :: string where
  "rulesetTerminatingLabel = ''ruleset.kafed.kusionstack.io/terminating''"

text \<open>\<open>reconcile.Result\<close>; the zero value is \<open>reconcile.Result{}\<close>.\<close>

record Result =
  Requeue :: bool
  RequeueAfter :: int

definition emptyResult :: Result where
  "emptyResult = \<lparr>Requeue = False, RequeueAfter = 0\<rparr>"

text \<open>
  Lines 150 to 157: the names of the selected pods; \<open>None\<close> is the early return at the
  first pod whose expectation is not satisfied.
\<close>

fun selectNames :: "(string \<rightharpoonup> nat) \<Rightarrow> Pod list \<Rightarrow> string set \<Rightarrow> string set option" where
  "selectNames table [] selectedPodNames = Some selectedPodNames"
| "selectNames table (pod # items) selectedPodNames =
     (if \<not> SatisfiedExpectations table (ObjectKey pod) (ResourceVersion pod) then None
      else selectNames table items (insert (Name pod) selectedPodNames))"

text \<open>Lines 158 to 161.\<close>

definition targetPodsOf :: "Pod list \<Rightarrow> (string, Pod) alist" where
  "targetPodsOf items = fold (\<lambda>pod targetPods. DAList.update (Name pod) pod targetPods) items DAList.empty"

definition podNamed :: "string \<Rightarrow> string \<Rightarrow> Pod" where
  "podNamed name namespace =
     \<lparr>Name = name, Namespace = namespace, ResourceVersion = 0, Generation = 0,
      DeletionTimestamp = None, Labels = Map.empty, Finalizers = [], OwnerRuleSets = []\<rparr>"

text \<open>Lines 163 to 175: remove unselected pods.\<close>

fun removeUnselected ::
  "RuleSetReconciler \<Rightarrow> RuleSet \<Rightarrow> string set \<Rightarrow> string list \<Rightarrow> world \<Rightarrow> error option \<times> world" where
  "removeUnselected r ruleSet selectedPodNames [] w = (None, w)"
| "removeUnselected r ruleSet selectedPodNames (name # names) w =
     (if name \<in> selectedPodNames then removeUnselected r ruleSet selectedPodNames names w
      else
        (case updateRuleSetOnPod r (Name ruleSet) (podNamed name (Namespace ruleSet)) MoveRulesetAnno w of
           (Some err, pod1, w1) \<Rightarrow> (Some err, w1)
         | (None, pod1, w1) \<Rightarrow> removeUnselected r ruleSet selectedPodNames names w1))"

text \<open>
  Lines 177 to 183: own selected pods. The pods are reached through pointers, so the
  map holds the refreshed and mutated pods afterwards.
\<close>

fun ownSelected ::
  "RuleSetReconciler \<Rightarrow> RuleSet \<Rightarrow> (string \<times> Pod) list \<Rightarrow> (string, Pod) alist \<Rightarrow> world \<Rightarrow>
     error option \<times> (string, Pod) alist \<times> world" where
  "ownSelected r ruleSet [] targetPods w = (None, targetPods, w)"
| "ownSelected r ruleSet (entry # entries) targetPods w =
     (case updateRuleSetOnPod r (Name ruleSet) (snd entry) AddRuleSetAnno w of
        (Some err, pod1, w1) \<Rightarrow> (Some err, DAList.update (fst entry) pod1 targetPods, w1)
      | (None, pod1, w1) \<Rightarrow> ownSelected r ruleSet entries (DAList.update (fst entry) pod1 targetPods) w1)"

text \<open>Lines 227 to 231.\<close>

definition oldDetailsOf :: "Detail list \<Rightarrow> (string, Detail) alist" where
  "oldDetailsOf ds = fold (\<lambda>de oldDetails. DAList.update (Detail.Name de) de oldDetails) ds DAList.empty"

text \<open>Lines 188 to 233: the result, the status and the notification.\<close>

definition finishPass ::
  "RuleSetReconciler \<Rightarrow> RuleSet \<Rightarrow> string set \<Rightarrow> merged \<Rightarrow> world \<Rightarrow> (Result \<times> error option) \<times> world" where
  "finishPass r ruleSet selectedPodNames m w =
     (case m of (shouldRetry, interval, details, ruleStates) \<Rightarrow>
      (let res = \<lparr>Requeue = shouldRetry, RequeueAfter = (case interval of None \<Rightarrow> 0 | Some i \<Rightarrow> i)\<rparr>;
           newStatus = newStatusOf r ruleSet selectedPodNames details ruleStates
       in case syncStatus ruleSet newStatus w of
            (Some err, ruleSet1, w1) \<Rightarrow> ((emptyResult, Some err), w1)
          | (None, ruleSet1, w1) \<Rightarrow>
              ((res, None), addQueues ruleSet1 details (oldDetailsOf (Details (Status ruleSet1))) w1)))"

text \<open>Lines 150 to 186, with \<open>result\<close> the named result of \<open>Reconcile\<close> so far.\<close>

definition ownAndProcess ::
  "RuleSetReconciler \<Rightarrow> RuleSet \<Rightarrow> Pod list \<Rightarrow> Result \<Rightarrow> world \<Rightarrow> (Result \<times> error option) \<times> world" where
  "ownAndProcess r ruleSet selectedPods result w =
     (case selectNames (PodVersionExpectation w) selectedPods {} of
        None \<Rightarrow> ((emptyResult, None), w)
      | Some selectedPodNames \<Rightarrow>
          (let targetPods = targetPodsOf selectedPods in
           case removeUnselected r ruleSet selectedPodNames (Targets (Status ruleSet)) w of
             (Some err, w1) \<Rightarrow> ((result, Some err), w1)
           | (None, w1) \<Rightarrow>
               (case ownSelected r ruleSet (DAList.impl_of targetPods) targetPods w1 of
                  (Some err, targetPods1, w2) \<Rightarrow> ((result, Some err), w2)
                | (None, targetPods1, w2) \<Rightarrow>
                    (case process r ruleSet targetPods1 w2 of
                       (m, w3) \<Rightarrow> finishPass r ruleSet selectedPodNames m w3))))"

text \<open>
  Lines 135 to 148. With the deletion timestamp set and cleanup allowed the pass ends
  here; with cleanup blocked it records the warning, sets \<open>result.RequeueAfter\<close> and
  goes on to line 150, as a pass without deletion timestamp does after adding the
  finalizer.
\<close>

definition deletionCheck ::
  "RuleSetReconciler \<Rightarrow> RuleSet \<Rightarrow> Pod list \<Rightarrow> world \<Rightarrow> (Result \<times> error option) \<times> world" where
  "deletionCheck r ruleSet selectedPods w =
     (if DeletionTimestamp ruleSet \<noteq> None then
        (if Labels ruleSet rulesetTerminatingLabel \<noteq> None \<or> \<not> hasRunningPod selectedPods then
           (case cleanUpPod r ruleSet w of
              (Some err, w1) \<Rightarrow> ((emptyResult, Some err), w1)
            | (None, w1) \<Rightarrow>
                (case RemoveFinalizer ruleSet cleanUpFinalizer w1 of
                   (err, ruleSet1, w2) \<Rightarrow> ((emptyResult, err), w2)))
         else
           ownAndProcess r ruleSet selectedPods (emptyResult\<lparr>RequeueAfter := 5 * 1000000000\<rparr>)
             (log (EvRecorder ''BlockProtection'') w))
      else
        (case AddFinalizer ruleSet cleanUpFinalizer w of
           (Some err, ruleSet1, w1) \<Rightarrow>
             ((emptyResult, Some (Errorf ''fail to add finalizer on RuleSet'' err)), w1)
         | (None, ruleSet1, w1) \<Rightarrow> ownAndProcess r ruleSet1 selectedPods emptyResult w1))"

text \<open>\<open>Reconcile\<close> (lines 111 to 234).\<close>

definition Reconcile ::
  "RuleSetReconciler \<Rightarrow> NamespacedName \<Rightarrow> world \<Rightarrow> (Result \<times> error option) \<times> world" where
  "Reconcile r request w =
     (case GetRuleSet request w of
        (Inl err, w1) \<Rightarrow>
          if IsNotFound err then ((emptyResult, None), w1) else ((emptyResult, Some err), w1)
      | (Inr ruleSet, w1) \<Rightarrow>
          if \<not> SatisfiedExpectations (RulesetVersionExpectation w1) (ObjectKey ruleSet) (ResourceVersion ruleSet)
          then ((emptyResult, None), w1)
          else
            (case ListPods r ruleSet w1 of
               (Inl err, w2) \<Rightarrow> ((emptyResult, Some err), w2)
             | (Inr selectedPods, w2) \<Rightarrow> deletionCheck r ruleSet selectedPods w2))"

section \<open>Properties\<close>

subsection \<open>Vocabulary of the statements\<close>

text \<open>The results of the stages of one pass, in the order of the merge.\<close>

definition stageResults :: "RuleSetReconciler \<Rightarrow> RuleSet \<Rightarrow> (string, Pod) alist \<Rightarrow> ProcessResult list" where
  "stageResults r rs ps = map (\<lambda>stage. Process r stage rs ps) (GetStages r)"

text \<open>The minimum of a list of intervals, \<open>None\<close> when there is none.\<close>

definition minInterval :: "int list \<Rightarrow> int option" where
  "minInterval is = (if is = [] then None else Some (Min (set is)))"

text \<open>The interval kept by one merge (lines 249 to 253), as a function of its own.\<close>

definition mergeInterval :: "int option \<Rightarrow> int option \<Rightarrow> int option" where
  "mergeInterval interval new =
     (case new of
        None \<Rightarrow> interval
      | Some i \<Rightarrow> (case interval of None \<Rightarrow> Some i | Some cur \<Rightarrow> if cur > i then Some i else Some cur))"

text \<open>
  What the body of \<open>updateDetail\<close> leaves for a target, from what the map held for it.
\<close>

definition entryDetail :: "ProcessResult \<Rightarrow> string \<Rightarrow> string \<Rightarrow> string set \<Rightarrow> Detail option \<Rightarrow> Detail" where
  "entryDetail res stage po rules old =
     (let d0 = (case old of
                  Some d \<Rightarrow> d
                | None \<Rightarrow> \<lparr>Detail.Name = po, Stage = stage, Passed = False, PassedRules = [],
                            RejectInfo = []\<rparr>);
          ri = RejectInfo d0 @
                 (case Rejected res po of
                    Some rej \<Rightarrow> [\<lparr>RuleName = RuleName rej, Reason = Reason rej\<rparr>]
                  | None \<Rightarrow> [])
      in d0\<lparr>PassedRules := PassedRules d0 @ sorted_list_of_set rules, RejectInfo := ri,
             Passed := (ri = [])\<rparr>)"

subsection \<open>Predicates and examples\<close>

text \<open>
  Three stages reporting the intervals 2s, 5s and none, and the retry flags false, true
  and false.
\<close>

definition threeStages :: RuleSetReconciler where
  "threeStages =
     \<lparr>GetStages = [''a'', ''b'', ''c''],
      Process = (\<lambda>stage rs ps.
         if stage = ''a'' then
           \<lparr>Interval = Some 2000000000, ProcessResult.RuleStates = [''rule-a''], Retry = False,
            PassRules = DAList.empty, Rejected = Map.empty\<rparr>
         else if stage = ''b'' then
           \<lparr>Interval = Some 5000000000, ProcessResult.RuleStates = [''rule-b''], Retry = True,
            PassRules = DAList.empty, Rejected = Map.empty\<rparr>
         else
           \<lparr>Interval = None, ProcessResult.RuleStates = [''rule-c''], Retry = False,
            PassRules = DAList.empty, Rejected = Map.empty\<rparr>),
      Matches = (\<lambda>rs pod. True),
      DefaultRetrySteps = 5,
      Now = 0\<rparr>"

text \<open>A RuleSet \<open>ns/rs\<close> without status, and a world with nothing in it.\<close>

definition noStatus :: RuleSetStatus where
  "noStatus = \<lparr>Targets = [], ObservedGeneration = 0, Details = [], RuleStates = [], UpdateTime = None\<rparr>"

definition plainRuleSet :: RuleSet where
  "plainRuleSet =
     \<lparr>Name = ''rs'', Namespace = ''ns'', ResourceVersion = 1, Generation = 1,
      DeletionTimestamp = None, Labels = Map.empty, Finalizers = [], Status = noStatus\<rparr>"

definition emptyWorld :: world where
  "emptyWorld =
     \<lparr>rulesets = Map.empty, pods = [], faults = [], RulesetVersionExpectation = Map.empty,
      PodVersionExpectation = Map.empty, podEventQueues = [], trace = []\<rparr>"


definition namedByKey :: "(string, Detail) alist \<Rightarrow> bool" where
  "namedByKey details = (\<forall>po d. DAList.lookup details po = Some d \<longrightarrow> Detail.Name d = po)"



text \<open>A stage result that lists \<open>p\<close> among its pass rules and rejects it.\<close>

definition rejectedAndPassed :: ProcessResult where
  "rejectedAndPassed =
     \<lparr>Interval = None, ProcessResult.RuleStates = [], Retry = False,
      PassRules = DAList.update ''p'' {''r1''} DAList.empty,
      Rejected = [''p'' \<mapsto> \<lparr>RuleName = ''r2'', Reason = ''denied''\<rparr>]\<rparr>"

text \<open>A stage result that rejects \<open>p\<close> and has no pass-rule entry for it.\<close>

definition rejectedOnly :: ProcessResult where
  "rejectedOnly =
     \<lparr>Interval = None, ProcessResult.RuleStates = [], Retry = False,
      PassRules = DAList.empty,
      Rejected = [''p'' \<mapsto> \<lparr>RuleName = ''r2'', Reason = ''denied''\<rparr>]\<rparr>"

text \<open>
  One stage that passes the targets \<open>b\<close> and \<open>a\<close>, visited in that order, and the
  Detail it leaves for a target.
\<close>

definition twoTargets :: RuleSetReconciler where
  "twoTargets =
     \<lparr>GetStages = [''s''],
      Process = (\<lambda>stage rs ps.
         \<lparr>Interval = None, ProcessResult.RuleStates = [''rule''], Retry = False,
          PassRules = DAList.update ''a'' {''r''} (DAList.update ''b'' {''r''} DAList.empty),
          Rejected = Map.empty\<rparr>),
      Matches = (\<lambda>rs pod. True),
      DefaultRetrySteps = 5,
      Now = 0\<rparr>"

definition passedDetail :: "string \<Rightarrow> Detail" where
  "passedDetail name = \<lparr>Detail.Name = name, Stage = ''s'', Passed = True, PassedRules = [''r''], RejectInfo = []\<rparr>"

text \<open>The RuleSet after a pass at time 0 stored the status of the target \<open>a\<close>.\<close>

definition reconciledRuleSet :: RuleSet where
  "reconciledRuleSet =
     plainRuleSet\<lparr>Status :=
       newStatusOf twoTargets plainRuleSet {''a''}
         (DAList.update ''a'' (passedDetail ''a'') DAList.empty) [''rule'']\<rparr>"

text \<open>
  A pod \<open>ns/p\<close> that no policy owns, a world holding it with a given transport script,
  and a world holding the RuleSet with a write from its version 1 still expected.
\<close>

definition thePod :: Pod where
  "thePod =
     \<lparr>Name = ''p'', Namespace = ''ns'', ResourceVersion = 1, Generation = 0,
      DeletionTimestamp = None, Labels = Map.empty, Finalizers = [], OwnerRuleSets = []\<rparr>"

definition podWorld :: "error option list \<Rightarrow> world" where
  "podWorld fs = emptyWorld\<lparr>pods := [thePod], faults := fs\<rparr>"

definition staleWorld :: world where
  "staleWorld =
     emptyWorld\<lparr>rulesets := [(''ns'', ''rs'') \<mapsto> plainRuleSet],
                 RulesetVersionExpectation := [''ns/rs'' \<mapsto> 1]\<rparr>"

text \<open>
  The names \<open>addQueues\<close> enqueues, in its order: the old entries whose Detail is absent
  from the new map or differs there, then the new entries absent from the old map.
\<close>

definition changedNames :: "(string, Detail) alist \<Rightarrow> (string, Detail) alist \<Rightarrow> string list" where
  "changedNames details oldDetails =
     map fst (filter (\<lambda>entry. DAList.lookup details (fst entry) \<noteq> Some (snd entry)) (DAList.impl_of oldDetails)) @
     map fst (filter (\<lambda>entry. DAList.lookup oldDetails (fst entry) = None) (DAList.impl_of details))"

text \<open>
  The old details \<open>{A: passed, B: rejected}\<close>, the new details \<open>{A: passed, C: passed}\<close>,
  and a world with two registered queues, the second one shutting down.
\<close>

definition rejectedDetail :: "string \<Rightarrow> Detail" where
  "rejectedDetail name =
     \<lparr>Detail.Name = name, Stage = ''s'', Passed = False, PassedRules = [],
      RejectInfo = [\<lparr>RuleName = ''r'', Reason = ''denied''\<rparr>]\<rparr>"

definition oldAB :: "(string, Detail) alist" where
  "oldAB = DAList.update ''B'' (rejectedDetail ''B'') (DAList.update ''A'' (passedDetail ''A'') DAList.empty)"

definition newAC :: "(string, Detail) alist" where
  "newAC = DAList.update ''C'' (passedDetail ''C'') (DAList.update ''A'' (passedDetail ''A'') DAList.empty)"

definition twoSinks :: world where
  "twoSinks =
     emptyWorld\<lparr>podEventQueues :=
       [\<lparr>ShuttingDown = False, added = []\<rparr>, \<lparr>ShuttingDown = True, added = []\<rparr>]\<rparr>"

text \<open>
  The events of a pass that only cleans up: reads, the remove-ownership mutation, the
  write of a pod and the write of the RuleSet's metadata. The add-ownership mutation, the
  evaluation of a stage, the status write, the expectation calls and the recorder are not
  among them. \<open>onlyEvents P w w'\<close>: the log of \<open>w'\<close> is the log of \<open>w\<close> followed by
  events that satisfy \<open>P\<close>.
\<close>

fun cleanupEvent :: "event \<Rightarrow> bool" where
  "cleanupEvent (EvGetRuleSet key) = True"
| "cleanupEvent (EvListPods namespace) = True"
| "cleanupEvent (EvGetPod key) = True"
| "cleanupEvent (EvMutate MoveRulesetAnno key) = True"
| "cleanupEvent (EvUpdatePod key) = True"
| "cleanupEvent (EvUpdateRuleSet key) = True"
| "cleanupEvent e = False"

definition onlyEvents :: "(event \<Rightarrow> bool) \<Rightarrow> world \<Rightarrow> world \<Rightarrow> bool" where
  "onlyEvents P w w' = (\<exists>es. trace w' = trace w @ es \<and> list_all P es)"

text \<open>
  A RuleSet with deletion timestamp, the cleanup finalizer and the recorded target \<open>p\<close>;
  a world in which \<open>p\<close> is running and nothing forces the deletion; and a world in which
  the RuleSet carries the terminating label and owns \<open>p\<close>.
\<close>

definition terminatingRuleSet :: RuleSet where
  "terminatingRuleSet =
     plainRuleSet\<lparr>DeletionTimestamp := Some 1, Finalizers := [cleanUpFinalizer],
                   Status := noStatus\<lparr>Targets := [''p'']\<rparr>\<rparr>"

definition blockedWorld :: world where
  "blockedWorld = emptyWorld\<lparr>rulesets := [(''ns'', ''rs'') \<mapsto> terminatingRuleSet], pods := [thePod]\<rparr>"

definition forcedRuleSet :: RuleSet where
  "forcedRuleSet = terminatingRuleSet\<lparr>Labels := [rulesetTerminatingLabel \<mapsto> ''true'']\<rparr>"

definition forcedWorld :: world where
  "forcedWorld =
     emptyWorld\<lparr>rulesets := [(''ns'', ''rs'') \<mapsto> forcedRuleSet],
                 pods := [thePod\<lparr>OwnerRuleSets := [''rs'']\<rparr>]\<rparr>"

text \<open>
  A stage that passes \<open>A\<close> and \<open>C\<close>, a RuleSet whose stored status has the details
  \<open>{A: passed, B: rejected}\<close>, and a world with the pods \<open>A\<close> and \<open>C\<close> and one live
  queue.
\<close>

definition passesAC :: RuleSetReconciler where
  "passesAC =
     twoTargets\<lparr>Process := (\<lambda>stage rs ps.
       \<lparr>Interval = None, ProcessResult.RuleStates = [], Retry = False,
        PassRules = DAList.update ''C'' {''r''} (DAList.update ''A'' {''r''} DAList.empty),
        Rejected = Map.empty\<rparr>)\<rparr>"

definition storedAB :: RuleSet where
  "storedAB =
     plainRuleSet\<lparr>Finalizers := [cleanUpFinalizer],
       Status := \<lparr>Targets = [''A'', ''B''], ObservedGeneration = 1,
                  Details = [passedDetail ''A'', rejectedDetail ''B''], RuleStates = [],
                  UpdateTime = None\<rparr>\<rparr>"

definition notifyWorld :: world where
  "notifyWorld =
     emptyWorld\<lparr>rulesets := [(''ns'', ''rs'') \<mapsto> storedAB],
                 pods := [thePod\<lparr>Name := ''A''\<rparr>, thePod\<lparr>Name := ''C''\<rparr>],
                 podEventQueues := [\<lparr>ShuttingDown = False, added = []\<rparr>]\<rparr>"

text \<open>The world that the pass of \<open>passesAC\<close> on \<open>notifyWorld\<close> leaves.\<close>

definition afterFirstPass :: world where
  "afterFirstPass =
     notifyWorld
       \<lparr>rulesets := [(''ns'', ''rs'') \<mapsto>
          storedAB\<lparr>ResourceVersion := 2,
                    Status := \<lparr>Targets = [''A'', ''C''], ObservedGeneration = 1,
                               Details = [passedDetail ''A'', passedDetail ''C''], RuleStates = [],
                               UpdateTime = Some 0\<rparr>\<rparr>],
        pods := [thePod\<lparr>Name := ''A'', ResourceVersion := 2, OwnerRuleSets := [''rs'']\<rparr>,
                 thePod\<lparr>Name := ''C'', ResourceVersion := 2, OwnerRuleSets := [''rs'']\<rparr>],
        RulesetVersionExpectation := [''ns/rs'' \<mapsto> 1],
        trace :=
          [EvGetRuleSet (''ns'', ''rs''), EvListPods ''ns'', EvGetPod (''ns'', ''B''),
           EvGetPod (''ns'', ''A''), EvMutate AddRuleSetAnno (''ns'', ''A''), EvUpdatePod (''ns'', ''A''),
           EvGetPod (''ns'', ''C''), EvMutate AddRuleSetAnno (''ns'', ''C''), EvUpdatePod (''ns'', ''C''),
           EvProcess ''s'', EvExpectUpdate ''ns/rs'' 1, EvStatusUpdate (''ns'', ''rs'')]\<rparr>"

text \<open>
  A world with the RuleSet and the pod \<open>p\<close> in which the fourth call of the store, the
  write of the pod, fails with the given error.
\<close>

definition failingWriteWorld :: "error \<Rightarrow> world" where
  "failingWriteWorld err =
     emptyWorld\<lparr>rulesets := [(''ns'', ''rs'') \<mapsto> plainRuleSet\<lparr>Finalizers := [cleanUpFinalizer]\<rparr>],
                 pods := [thePod],
                 faults := [None, None, None, Some err]\<rparr>"

text \<open>One stage that reports nothing: no interval, no retry, no target.\<close>

definition quietStage :: RuleSetReconciler where
  "quietStage =
     \<lparr>GetStages = [''s''],
      Process = (\<lambda>stage rs ps.
         \<lparr>Interval = None, ProcessResult.RuleStates = [], Retry = False,
          PassRules = DAList.empty, Rejected = Map.empty\<rparr>),
      Matches = (\<lambda>rs pod. True),
      DefaultRetrySteps = 5,
      Now = 0\<rparr>"

subsection \<open>The merge of the stage results\<close>

lemma Min_insert_min:
  fixes a b :: int
  assumes "finite S"
  shows "Min (insert a (insert b S)) = Min (insert (min a b) S)"
proof (cases "S = {}")
  case True
  then show ?thesis by (simp add: min_def)
next
  case False
  then show ?thesis using assms by (simp add: min.assoc)
qed

lemma minInterval_min: "minInterval (a # b # xs) = minInterval (min a b # xs)"
  using Min_insert_min[of "set xs" a b] by (simp add: minInterval_def)

lemma foldl_mergeInterval:
  "foldl (\<lambda>iv res. mergeInterval iv (f res)) iv xs =
     minInterval ((case iv of None \<Rightarrow> [] | Some i \<Rightarrow> [i]) @ List.map_filter f xs)"
proof (induction xs arbitrary: iv)
  case Nil
  then show ?case by (simp add: minInterval_def split: option.splits)
next
  case (Cons x xs)
  show ?case
  proof (cases "f x")
    case None
    have "mergeInterval iv (f x) = iv" by (simp add: None mergeInterval_def)
    then show ?thesis by (simp add: Cons.IH None)
  next
    case (Some i)
    note x = Some
    show ?thesis
    proof (cases iv)
      case None
      have "mergeInterval iv (f x) = Some i" by (simp add: None x mergeInterval_def)
      then show ?thesis by (simp add: Cons.IH None x)
    next
      case (Some c)
      have "mergeInterval iv (f x) = Some (min c i)"
        by (simp add: Some x mergeInterval_def min_def)
      then show ?thesis
        by (simp add: Cons.IH Some x minInterval_min)
    qed
  qed
qed

lemma mergeResult_interval:
  "fst (snd (mergeResult stage res (sr, iv, ds, rss))) = mergeInterval iv (Interval res)"
  by (simp add: mergeResult_def mergeInterval_def split: option.splits)

lemma processStages_interval_foldl:
  "fst (snd (fst (processStages r rs ps stages (sr, iv, ds, rss) w))) =
     foldl (\<lambda>iv res. mergeInterval iv (Interval res)) iv (map (\<lambda>stage. Process r stage rs ps) stages)"
proof (induction stages arbitrary: sr iv ds rss w)
  case Nil
  then show ?case by simp
next
  case (Cons stage stages)
  obtain sr' iv' ds' rss' where m: "mergeResult stage (Process r stage rs ps) (sr, iv, ds, rss) = (sr', iv', ds', rss')"
    by (cases "mergeResult stage (Process r stage rs ps) (sr, iv, ds, rss)") auto
  have "iv' = mergeInterval iv (Interval (Process r stage rs ps))"
    using mergeResult_interval[of stage "Process r stage rs ps" sr iv ds rss] by (simp add: m)
  then show ?case by (simp add: m Cons.IH)
qed

lemma processStages_interval:
  "fst (snd (fst (processStages r rs ps stages (sr, None, ds, rss) w))) =
     minInterval (List.map_filter Interval (map (\<lambda>stage. Process r stage rs ps) stages))"
  by (simp add: processStages_interval_foldl foldl_mergeInterval)

lemma processStages_retry:
  "fst (fst (processStages r rs ps stages (sr, iv, ds, rss) w)) =
     (sr \<or> (\<exists>res\<in>set (map (\<lambda>stage. Process r stage rs ps) stages). Retry res))"
  by (induction stages arbitrary: sr iv ds rss w) (auto simp: mergeResult_def)

lemma processStages_ruleStates:
  "snd (snd (snd (fst (processStages r rs ps stages (sr, iv, ds, rss) w)))) =
     rss @ concat (map ProcessResult.RuleStates (map (\<lambda>stage. Process r stage rs ps) stages))"
  by (induction stages arbitrary: sr iv ds rss w) (auto simp: mergeResult_def)

lemma processStages_details:
  "fst (snd (snd (fst (processStages r rs ps stages (sr, iv, ds, rss) w)))) =
     fold (\<lambda>stage ds. updateDetail ds (Process r stage rs ps) stage) stages ds"
  by (induction stages arbitrary: sr iv ds rss w) (auto simp: mergeResult_def)

lemma processStages_world:
  "snd (processStages r rs ps stages m w) = w\<lparr>trace := trace w @ map EvProcess stages\<rparr>"
  by (induction stages arbitrary: m w) (auto simp: log_def)

lemma fst_process:
  "fst (process r rs ps w) =
     (\<exists>res\<in>set (stageResults r rs ps). Retry res,
      minInterval (List.map_filter Interval (stageResults r rs ps)),
      fold (\<lambda>stage ds. updateDetail ds (Process r stage rs ps) stage) (GetStages r) DAList.empty,
      concat (map ProcessResult.RuleStates (stageResults r rs ps)))"
proof -
  obtain sr iv ds rss where m: "fst (process r rs ps w) = (sr, iv, ds, rss)"
    by (cases "fst (process r rs ps w)") auto
  have "fst (snd (fst (process r rs ps w))) = minInterval (List.map_filter Interval (stageResults r rs ps))"
    by (simp add: process_def stageResults_def processStages_interval)
  then have 1: "iv = minInterval (List.map_filter Interval (stageResults r rs ps))"
    by (simp add: m)
  have "fst (fst (process r rs ps w)) = (\<exists>res\<in>set (stageResults r rs ps). Retry res)"
    unfolding process_def stageResults_def processStages_retry by simp
  then have 2: "sr = (\<exists>res\<in>set (stageResults r rs ps). Retry res)"
    by (simp add: m)
  have "snd (snd (snd (fst (process r rs ps w)))) = concat (map ProcessResult.RuleStates (stageResults r rs ps))"
    unfolding process_def stageResults_def processStages_ruleStates by simp
  then have 3: "rss = concat (map ProcessResult.RuleStates (stageResults r rs ps))"
    by (simp add: m)
  have "fst (snd (snd (fst (process r rs ps w)))) =
          fold (\<lambda>stage ds. updateDetail ds (Process r stage rs ps) stage) (GetStages r) DAList.empty"
    unfolding process_def processStages_details by simp
  then have 4: "ds = fold (\<lambda>stage ds. updateDetail ds (Process r stage rs ps) stage) (GetStages r) DAList.empty"
    by (simp add: m)
  show ?thesis
    unfolding m using 1 2 3 4 by blast
qed

text \<open>
  C6. Whatever the stages of a pass return and in whatever order they merge, the merged
  interval is the minimum of the intervals reported (none when no stage reports one), the
  merged retry flag is the disjunction of the stages' flags, and the merged rule states
  are the stages' rule states, concatenated.
\<close>

theorem process_merges_stage_results:
  "(case fst (process r rs ps w) of
      (shouldRetry, interval, details, ruleStates) \<Rightarrow>
        interval = minInterval (List.map_filter Interval (stageResults r rs ps)) \<and>
        shouldRetry = (\<exists>res\<in>set (stageResults r rs ps). Retry res) \<and>
        ruleStates = concat (map ProcessResult.RuleStates (stageResults r rs ps)))"
  by (simp add: fst_process)

text \<open>
  For the intervals 2s, 5s and none the merged interval is 2s, and for the retry flags
  false, true, false the merged flag is true.
\<close>

theorem process_merges_stage_results_witness:
  "(case fst (process threeStages plainRuleSet DAList.empty emptyWorld) of
      (shouldRetry, interval, details, ruleStates) \<Rightarrow>
        interval = Some 2000000000 \<and> shouldRetry = True \<and>
        ruleStates = [''rule-a'', ''rule-b'', ''rule-c''])"
  using process_merges_stage_results [of threeStages plainRuleSet DAList.empty emptyWorld]
  by (simp add: stageResults_def threeStages_def minInterval_def)

subsection \<open>The details of the targets\<close>

lemma lookup_updateDetailEntry:
  "DAList.lookup (updateDetailEntry res stage ds (po, rules)) =
     (DAList.lookup ds)(po \<mapsto> entryDetail res stage po rules (DAList.lookup ds po))"
  by (rule ext) (simp add: updateDetailEntry_def entryDetail_def DAList.lookup_update Let_def split: option.splits)

lemma lookup_fold_updateDetailEntry:
  "distinct (map fst es) \<Longrightarrow>
   DAList.lookup (fold (\<lambda>entry ds. updateDetailEntry res stage ds entry) es ds) po =
     (case map_of es po of
        None \<Rightarrow> DAList.lookup ds po
      | Some rules \<Rightarrow> Some (entryDetail res stage po rules (DAList.lookup ds po)))"
proof (induction es arbitrary: ds)
  case Nil
  then show ?case by simp
next
  case (Cons e es)
  obtain k v where e: "e = (k, v)" by (cases e)
  from Cons.prems have d: "distinct (map fst es)" and k: "k \<notin> fst ` set es" by (auto simp: e)
  have none: "map_of es k = None" using k by (simp add: map_of_eq_None_iff)
  show ?case
    using Cons.IH[OF d, of "updateDetailEntry res stage ds (k, v)"] none
    by (auto simp: e lookup_updateDetailEntry split: option.splits)
qed

lemma lookup_updateDetail:
  "DAList.lookup (updateDetail ds res stage) po =
     (case DAList.lookup (PassRules res) po of
        None \<Rightarrow> DAList.lookup ds po
      | Some rules \<Rightarrow> Some (entryDetail res stage po rules (DAList.lookup ds po)))"
  unfolding updateDetail_def
  by (subst lookup_fold_updateDetailEntry) (simp_all add: DAList.lookup.rep_eq[of "PassRules res"])

lemma entryDetail_Passed: "Passed (entryDetail res stage po rules old) = (RejectInfo (entryDetail res stage po rules old) = [])"
  by (simp add: entryDetail_def Let_def)

lemma entryDetail_Name:
  "(\<forall>d. old = Some d \<longrightarrow> Detail.Name d = po) \<Longrightarrow> Detail.Name (entryDetail res stage po rules old) = po"
  by (cases old) (simp_all add: entryDetail_def Let_def)

lemma entryDetail_RejectInfo:
  "RejectInfo (entryDetail res stage po rules old) =
     (case old of None \<Rightarrow> [] | Some d \<Rightarrow> RejectInfo d) @
     (case Rejected res po of Some rej \<Rightarrow> [\<lparr>RuleName = RuleName rej, Reason = Reason rej\<rparr>] | None \<Rightarrow> [])"
  by (cases old) (simp_all add: entryDetail_def Let_def)


lemma updateDetail_namedByKey:
  "namedByKey details \<Longrightarrow> namedByKey (updateDetail details res stage)"
  unfolding namedByKey_def
  by (auto simp: lookup_updateDetail entryDetail_Name split: option.splits)


lemma fold_updateDetail_namedByKey:
  "namedByKey details \<Longrightarrow>
   namedByKey (fold (\<lambda>stage ds. updateDetail ds (f stage) stage) stages details)"
  by (induction stages arbitrary: details) (simp_all add: updateDetail_namedByKey)








text \<open>
  C8 (as amended). For a target that has an entry in the \<open>PassRules\<close> of a stage result
  and an entry in its \<open>Rejected\<close>, \<open>updateDetail\<close> appends exactly one RejectInfo, the
  one of that rejection, to the target's Detail (a new Detail when the target had none),
  and the Detail is not passed. A target without entry in \<open>PassRules\<close> keeps what it had.
\<close>

theorem updateDetail_records_rejection:
  "(DAList.lookup (PassRules res) po = Some rules \<and> Rejected res po = Some rej \<longrightarrow>
      (\<exists>d. DAList.lookup (updateDetail details res stage) po = Some d \<and>
           RejectInfo d =
             (case DAList.lookup details po of None \<Rightarrow> [] | Some old \<Rightarrow> RejectInfo old) @
             [\<lparr>RuleName = RuleName rej, Reason = Reason rej\<rparr>] \<and>
           \<not> Passed d)) \<and>
   (DAList.lookup (PassRules res) po = None \<longrightarrow>
      DAList.lookup (updateDetail details res stage) po = DAList.lookup details po)"
  by (simp add: lookup_updateDetail entryDetail_RejectInfo entryDetail_Passed)

text \<open>The rejection of \<open>p\<close> is recorded; \<open>q\<close>, which the stage does not list, has no Detail.\<close>

theorem updateDetail_records_rejection_witness:
  "DAList.lookup (updateDetail DAList.empty rejectedAndPassed ''s1'') ''p'' =
     Some \<lparr>Detail.Name = ''p'', Stage = ''s1'', Passed = False, PassedRules = [''r1''],
           RejectInfo = [\<lparr>RuleName = ''r2'', Reason = ''denied''\<rparr>]\<rparr> \<and>
   DAList.lookup (updateDetail DAList.empty rejectedAndPassed ''s1'') ''q'' = None"
  using updateDetail_records_rejection [of rejectedAndPassed "''p''" "{''r1''}"
      "\<lparr>RuleName = ''r2'', Reason = ''denied''\<rparr>" DAList.empty "''s1''"]
    updateDetail_records_rejection [of rejectedAndPassed "''q''" "{}"
      "\<lparr>RuleName = ''r2'', Reason = ''denied''\<rparr>" DAList.empty "''s1''"]
  by (simp add: rejectedAndPassed_def DAList.lookup_update lookup_updateDetail entryDetail_def)

text \<open>
  The claim as stated fails: a rejection of a target that is not among the pass rules
  leaves no Detail.
\<close>

theorem rejection_not_recorded_counterexample:
  "Rejected rejectedOnly ''p'' = Some \<lparr>RuleName = ''r2'', Reason = ''denied''\<rparr> \<and>
   DAList.lookup (updateDetail DAList.empty rejectedOnly ''s1'') ''p'' = None"
  by (simp add: rejectedOnly_def lookup_updateDetail)

subsection \<open>The status snapshot\<close>

lemma sort_distinct_set:
  fixes xs ys :: "'a::linorder list"
  assumes "distinct xs" "distinct ys" "set xs = set ys"
  shows "sort xs = sort ys"
proof -
  have "sort xs = sorted_list_of_set (set xs)"
    using assms(1) by (simp add: sorted_list_of_set_sort_remdups distinct_remdups_id)
  moreover have "sort ys = sorted_list_of_set (set ys)"
    using assms(2) by (simp add: sorted_list_of_set_sort_remdups distinct_remdups_id)
  ultimately show ?thesis using assms(3) by simp
qed

lemma same_entries_same_lookup:
  "set (DAList.impl_of a) = set (DAList.impl_of b) \<Longrightarrow> DAList.lookup a = DAList.lookup b"
  by (simp add: DAList.lookup.rep_eq map_of_inject_set[symmetric])

lemma same_entries_same_keys:
  assumes "set (DAList.impl_of a) = set (DAList.impl_of b)"
  shows "sort (map fst (DAList.impl_of a)) = sort (map fst (DAList.impl_of b))"
proof (rule sort_distinct_set)
  show "distinct (map fst (DAList.impl_of a))" by simp
  show "distinct (map fst (DAList.impl_of b))" by simp
  have "fst ` set (DAList.impl_of a) = fst ` set (DAList.impl_of b)"
    using assms by simp
  then show "set (map fst (DAList.impl_of a)) = set (map fst (DAList.impl_of b))"
    by simp
qed

lemma newStatusOf_same_entries:
  assumes "set (DAList.impl_of details') = set (DAList.impl_of details)"
  shows "newStatusOf r ruleSet names details' ruleStates = newStatusOf r ruleSet names details ruleStates"
  unfolding newStatusOf_def
  by (simp only: same_entries_same_lookup[OF assms] same_entries_same_keys[OF assms])



lemma map_filter_named:
  "(\<And>k. k \<in> set ks \<Longrightarrow> \<exists>d. m k = Some d \<and> Detail.Name d = k) \<Longrightarrow>
   map Detail.Name (List.map_filter m ks) = ks"
proof (induction ks)
  case Nil
  show ?case by (simp add: List.map_filter_simps)
next
  case (Cons k ks)
  obtain d where d: "m k = Some d" "Detail.Name d = k" using Cons.prems[of k] by auto
  have "map Detail.Name (List.map_filter m ks) = ks"
    by (rule Cons.IH) (simp add: Cons.prems)
  then show ?case by (simp add: List.map_filter_simps d)
qed

lemma keys_in_lookup:
  assumes "k \<in> set (map fst (DAList.impl_of m))"
  shows "\<exists>d. DAList.lookup m k = Some d"
proof -
  have "k \<in> dom (map_of (DAList.impl_of m))"
    using assms by (simp add: dom_map_of_conv_image_fst)
  then obtain d where "map_of (DAList.impl_of m) k = Some d" by blast
  then show ?thesis by (simp add: DAList.lookup.rep_eq)
qed

lemma named_keys:
  assumes "namedByKey details" "k \<in> set (sort (map fst (DAList.impl_of details)))"
  shows "\<exists>d. DAList.lookup details k = Some d \<and> Detail.Name d = k"
proof -
  have "k \<in> set (map fst (DAList.impl_of details))" using assms(2) by simp
  from keys_in_lookup[OF this] obtain d where d: "DAList.lookup details k = Some d" ..
  then have "Detail.Name d = k" using assms(1) unfolding namedByKey_def by blast
  with d show ?thesis by blast
qed

lemma Details_names:
  assumes "namedByKey details"
  shows "map Detail.Name (Details (newStatusOf r ruleSet names details ruleStates)) =
           sort (map fst (DAList.impl_of details))"
proof -
  have "map Detail.Name (List.map_filter (DAList.lookup details) (sort (map fst (DAList.impl_of details)))) =
          sort (map fst (DAList.impl_of details))"
    by (rule map_filter_named) (rule named_keys[OF assms])
  then show ?thesis
    unfolding newStatusOf_def Let_def by simp
qed

lemma namedByKey_empty: "namedByKey DAList.empty"
  by (simp add: namedByKey_def)

lemma process_namedByKey:
  "namedByKey (fst (snd (snd (fst (process r rs ps w)))))"
proof -
  have "namedByKey (fold (\<lambda>stage ds. updateDetail ds (Process r stage rs ps) stage) (GetStages r) DAList.empty)"
    by (rule fold_updateDetail_namedByKey) (rule namedByKey_empty)
  then show ?thesis by (simp add: fst_process)
qed

text \<open>
  C9. The snapshot built from the details of a pass has its \<open>Targets\<close> sorted (and
  without repetition, and they are the selected names) and its \<open>Details\<close> sorted by
  target name; a details map with the same entries in another order gives the same
  snapshot.
\<close>

theorem newStatus_sorted_and_order_free:
  "(case fst (process r rs ps w) of
      (shouldRetry, interval, details, ruleStates) \<Rightarrow>
        sorted (Targets (newStatusOf r ruleSet names details ruleStates)) \<and>
        distinct (Targets (newStatusOf r ruleSet names details ruleStates)) \<and>
        (finite names \<longrightarrow> set (Targets (newStatusOf r ruleSet names details ruleStates)) = names) \<and>
        sorted (map Detail.Name (Details (newStatusOf r ruleSet names details ruleStates))) \<and>
        distinct (map Detail.Name (Details (newStatusOf r ruleSet names details ruleStates))) \<and>
        (set (DAList.impl_of details') = set (DAList.impl_of details) \<longrightarrow>
           newStatusOf r ruleSet names details' ruleStates =
             newStatusOf r ruleSet names details ruleStates))"
proof -
  obtain sr iv ds rss where m: "fst (process r rs ps w) = (sr, iv, ds, rss)"
    by (cases "fst (process r rs ps w)") auto
  have "namedByKey ds"
    using process_namedByKey[of r rs ps w] by (simp add: m)
  then have n: "map Detail.Name (Details (newStatusOf r ruleSet names ds rss)) =
                  sort (map fst (DAList.impl_of ds))"
    by (rule Details_names)
  have t: "Targets (newStatusOf r ruleSet names ds rss) = sorted_list_of_set names"
    by (simp add: newStatusOf_def Let_def)
  have d: "distinct (sort (map fst (DAList.impl_of ds)))" by simp
  have p: "sorted (Targets (newStatusOf r ruleSet names ds rss)) \<and>
        distinct (Targets (newStatusOf r ruleSet names ds rss)) \<and>
        (finite names \<longrightarrow> set (Targets (newStatusOf r ruleSet names ds rss)) = names) \<and>
        sorted (map Detail.Name (Details (newStatusOf r ruleSet names ds rss))) \<and>
        distinct (map Detail.Name (Details (newStatusOf r ruleSet names ds rss)))"
    using d by (simp add: n t)
  have o: "set (DAList.impl_of details') = set (DAList.impl_of ds) \<longrightarrow>
           newStatusOf r ruleSet names details' rss = newStatusOf r ruleSet names ds rss"
    by (rule impI) (rule newStatusOf_same_entries)
  show ?thesis
    unfolding m prod.case using p o by (intro conjI) (elim conjE, assumption)+
qed

text \<open>
  The stage visits \<open>b\<close> before \<open>a\<close>; the snapshot lists \<open>a\<close> before \<open>b\<close>, and the
  map holding the same two details in the other order gives the same snapshot.
\<close>

theorem newStatus_sorted_and_order_free_witness:
  "(case fst (process twoTargets plainRuleSet DAList.empty emptyWorld) of
      (shouldRetry, interval, details, ruleStates) \<Rightarrow>
        DAList.impl_of details = [(''b'', passedDetail ''b''), (''a'', passedDetail ''a'')] \<and>
        Targets (newStatusOf twoTargets plainRuleSet {''b'', ''a''} details ruleStates) = [''a'', ''b''] \<and>
        Details (newStatusOf twoTargets plainRuleSet {''b'', ''a''} details ruleStates) =
          [passedDetail ''a'', passedDetail ''b''] \<and>
        newStatusOf twoTargets plainRuleSet {''b'', ''a''}
            (DAList.update ''b'' (passedDetail ''b'') (DAList.update ''a'' (passedDetail ''a'') DAList.empty))
            ruleStates =
          newStatusOf twoTargets plainRuleSet {''b'', ''a''} details ruleStates)"
  using newStatus_sorted_and_order_free [where r = twoTargets and rs = plainRuleSet
      and ps = DAList.empty and w = emptyWorld and ruleSet = plainRuleSet and names = "{''b'', ''a''}"
      and details' = "DAList.update ''b'' (passedDetail ''b'') (DAList.update ''a'' (passedDetail ''a'') DAList.empty)"]
  by (simp add: fst_process twoTargets_def updateDetail_def updateDetailEntry_def passedDetail_def
      DAList.update.rep_eq DAList.empty.rep_eq DAList.lookup.rep_eq newStatusOf_def
      List.map_filter_simps insert_commute)



subsection \<open>Writing the status\<close>

lemma equalStatus_newStatusOf:
  "Generation ruleSet' = Generation ruleSet \<Longrightarrow>
   equalStatus (newStatusOf r' ruleSet' names details ruleStates)
               (newStatusOf r ruleSet names details ruleStates)"
  by (simp add: equalStatus_def newStatusOf_def Let_def)

lemma syncStatus_equal:
  "equalStatus newStatus (Status ruleSet) \<Longrightarrow> syncStatus ruleSet newStatus w = (None, ruleSet, w)"
  by (simp add: syncStatus_def)

lemma self_only_queues: "\<exists>qs. (w::world) = w\<lparr>podEventQueues := qs\<rparr>"
  by (rule exI[of _ "podEventQueues w"]) simp

lemma addToEveryQueue_only_queues: "\<exists>qs. addToEveryQueue namespace name w = w\<lparr>podEventQueues := qs\<rparr>"
  unfolding addToEveryQueue_def by (rule exI, rule refl)

lemma fold_only_queues:
  fixes f :: "'e \<Rightarrow> world \<Rightarrow> world"
  assumes "\<And>e w. \<exists>qs. f e w = w\<lparr>podEventQueues := qs\<rparr>"
  shows "\<exists>qs. fold f es w = w\<lparr>podEventQueues := qs\<rparr>"
proof (induction es arbitrary: w)
  case Nil
  show ?case using self_only_queues[of w] by simp
next
  case (Cons e es)
  obtain qs where 1: "f e w = w\<lparr>podEventQueues := qs\<rparr>" using assms by blast
  obtain qs' where 2: "fold f es (f e w) = (f e w)\<lparr>podEventQueues := qs'\<rparr>"
    using Cons.IH by blast
  have "fold f (e # es) w = w\<lparr>podEventQueues := qs'\<rparr>"
    using 2 by (simp add: 1)
  then show ?case ..
qed

lemma addQueues_only_queues:
  "\<exists>qs. addQueues rs details oldDetails w = w\<lparr>podEventQueues := qs\<rparr>"
proof -
  let ?f = "\<lambda>entry w. case entry of (name, old) \<Rightarrow>
                         (case DAList.lookup details name of
                            None \<Rightarrow> addToEveryQueue (Namespace rs) name w
                          | Some detail \<Rightarrow>
                              if old \<noteq> detail then addToEveryQueue (Namespace rs) name w else w)"
  let ?g = "\<lambda>entry w. case entry of (name, detail) \<Rightarrow>
                      (case DAList.lookup oldDetails name of
                         None \<Rightarrow> addToEveryQueue (Namespace rs) name w
                       | Some old \<Rightarrow> w)"
  have f: "\<exists>qs. ?f e w = w\<lparr>podEventQueues := qs\<rparr>" for e w
  proof (cases e)
    case (Pair name old)
    show ?thesis
    proof (cases "DAList.lookup details name")
      case None
      then show ?thesis using addToEveryQueue_only_queues[of "Namespace rs" name w] by (simp add: Pair)
    next
      case (Some detail)
      show ?thesis
      proof (cases "old = detail")
        case True
        then show ?thesis using self_only_queues[of w] by (simp add: Pair Some)
      next
        case False
        then show ?thesis using addToEveryQueue_only_queues[of "Namespace rs" name w] by (simp add: Pair Some)
      qed
    qed
  qed
  have g: "\<exists>qs. ?g e w = w\<lparr>podEventQueues := qs\<rparr>" for e w
  proof (cases e)
    case (Pair name detail)
    show ?thesis
    proof (cases "DAList.lookup oldDetails name")
      case None
      then show ?thesis using addToEveryQueue_only_queues[of "Namespace rs" name w] by (simp add: Pair)
    next
      case (Some old)
      then show ?thesis using self_only_queues[of w] by (simp add: Pair)
    qed
  qed
  obtain q1 where 1: "fold ?f (DAList.impl_of oldDetails) w = w\<lparr>podEventQueues := q1\<rparr>"
    using fold_only_queues[of ?f, OF f] by blast
  obtain q2 where 2: "fold ?g (DAList.impl_of details) (w\<lparr>podEventQueues := q1\<rparr>) =
      (w\<lparr>podEventQueues := q1\<rparr>)\<lparr>podEventQueues := q2\<rparr>"
    using fold_only_queues[of ?g, OF g] by blast
  show ?thesis
  proof (cases "length (podEventQueues w) = 0")
    case True
    then show ?thesis using self_only_queues[of w] by (simp add: addQueues_def)
  next
    case False
    have "addQueues rs details oldDetails w = w\<lparr>podEventQueues := q2\<rparr>"
      using False by (simp add: addQueues_def Let_def 1 2)
    then show ?thesis ..
  qed
qed

lemma addQueues_frame:
  "rulesets (addQueues rs details oldDetails w) = rulesets w \<and>
   pods (addQueues rs details oldDetails w) = pods w \<and>
   faults (addQueues rs details oldDetails w) = faults w \<and>
   RulesetVersionExpectation (addQueues rs details oldDetails w) = RulesetVersionExpectation w \<and>
   PodVersionExpectation (addQueues rs details oldDetails w) = PodVersionExpectation w \<and>
   trace (addQueues rs details oldDetails w) = trace w"
proof -
  obtain qs where "addQueues rs details oldDetails w = w\<lparr>podEventQueues := qs\<rparr>"
    using addQueues_only_queues by blast
  then show ?thesis by simp
qed

text \<open>
  C5. When the snapshot equals the stored status under \<open>equalStatus\<close>, which does not
  look at \<open>UpdateTime\<close>, nothing is written: \<open>syncStatus\<close> returns the world as it was,
  and the rest of the pass leaves the store, the transport script, the expectation table
  and the log untouched. A snapshot built again from the same names, details, rule states
  and generation, at whatever time, equals the stored one, so the second run writes
  nothing.
\<close>

theorem equal_status_is_not_written:
  "(equalStatus newStatus (Status ruleSet) \<longrightarrow> syncStatus ruleSet newStatus w = (None, ruleSet, w)) \<and>
   (equalStatus (newStatusOf r ruleSet names details ruleStates) (Status ruleSet) \<longrightarrow>
      (case finishPass r ruleSet names (shouldRetry, interval, details, ruleStates) w of
         ((res, err), w') \<Rightarrow>
           err = None \<and> trace w' = trace w \<and> rulesets w' = rulesets w \<and> faults w' = faults w \<and>
           RulesetVersionExpectation w' = RulesetVersionExpectation w)) \<and>
   (Generation ruleSet' = Generation ruleSet \<and>
    Status ruleSet' = newStatusOf r ruleSet names details ruleStates \<longrightarrow>
      syncStatus ruleSet' (newStatusOf r' ruleSet' names details ruleStates) w = (None, ruleSet', w))"
proof (intro conjI impI)
  assume "equalStatus newStatus (Status ruleSet)"
  then show "syncStatus ruleSet newStatus w = (None, ruleSet, w)" by (rule syncStatus_equal)
next
  assume e: "equalStatus (newStatusOf r ruleSet names details ruleStates) (Status ruleSet)"
  show "case finishPass r ruleSet names (shouldRetry, interval, details, ruleStates) w of
         ((res, err), w') \<Rightarrow>
           err = None \<and> trace w' = trace w \<and> rulesets w' = rulesets w \<and> faults w' = faults w \<and>
           RulesetVersionExpectation w' = RulesetVersionExpectation w"
    by (simp add: finishPass_def Let_def syncStatus_equal[OF e] addQueues_frame)
next
  assume a: "Generation ruleSet' = Generation ruleSet \<and>
    Status ruleSet' = newStatusOf r ruleSet names details ruleStates"
  then have "equalStatus (newStatusOf r' ruleSet' names details ruleStates) (Status ruleSet')"
    by (simp add: equalStatus_newStatusOf)
  then show "syncStatus ruleSet' (newStatusOf r' ruleSet' names details ruleStates) w = (None, ruleSet', w)"
    by (rule syncStatus_equal)
qed

text \<open>
  The status stored at time 0 and the snapshot built at time 7 differ in \<open>UpdateTime\<close>
  only; the second run leaves the world as it was.
\<close>

theorem equal_status_is_not_written_witness:
  "UpdateTime (newStatusOf (twoTargets\<lparr>Now := 7\<rparr>) reconciledRuleSet {''a''}
       (DAList.update ''a'' (passedDetail ''a'') DAList.empty) [''rule'']) = Some 7 \<and>
   UpdateTime (Status reconciledRuleSet) = Some 0 \<and>
   equalStatus
     (newStatusOf (twoTargets\<lparr>Now := 7\<rparr>) reconciledRuleSet {''a''}
       (DAList.update ''a'' (passedDetail ''a'') DAList.empty) [''rule''])
     (Status reconciledRuleSet) \<and>
   syncStatus reconciledRuleSet
     (newStatusOf (twoTargets\<lparr>Now := 7\<rparr>) reconciledRuleSet {''a''}
       (DAList.update ''a'' (passedDetail ''a'') DAList.empty) [''rule''])
     emptyWorld = (None, reconciledRuleSet, emptyWorld) \<and>
   snd (finishPass (twoTargets\<lparr>Now := 7\<rparr>) reconciledRuleSet {''a''}
       (False, None, DAList.update ''a'' (passedDetail ''a'') DAList.empty, [''rule'']) emptyWorld) =
     emptyWorld"
proof -
  let ?r = "twoTargets\<lparr>Now := 7\<rparr>"
  let ?d = "DAList.update ''a'' (passedDetail ''a'') DAList.empty"
  have g: "Generation reconciledRuleSet = Generation plainRuleSet"
    by (simp add: reconciledRuleSet_def)
  have s: "Status reconciledRuleSet = newStatusOf twoTargets plainRuleSet {''a''} ?d [''rule'']"
    by (simp add: reconciledRuleSet_def)
  have e: "equalStatus (newStatusOf ?r reconciledRuleSet {''a''} ?d [''rule'']) (Status reconciledRuleSet)"
    by (simp add: s equalStatus_def newStatusOf_def g)
  note t = equal_status_is_not_written [where newStatus = "newStatusOf ?r reconciledRuleSet {''a''} ?d [''rule'']"
      and ruleSet = reconciledRuleSet and w = emptyWorld]
  have 1: "syncStatus reconciledRuleSet (newStatusOf ?r reconciledRuleSet {''a''} ?d [''rule'']) emptyWorld =
             (None, reconciledRuleSet, emptyWorld)"
    using t e by blast
  have 2: "snd (finishPass ?r reconciledRuleSet {''a''} (False, None, ?d, [''rule'']) emptyWorld) = emptyWorld"
    by (simp add: finishPass_def 1) (simp add: addQueues_def emptyWorld_def)
  have 3: "UpdateTime (newStatusOf ?r reconciledRuleSet {''a''} ?d [''rule'']) = Some 7"
    by (simp add: newStatusOf_def twoTargets_def)
  have 4: "UpdateTime (Status reconciledRuleSet) = Some 0"
    by (simp add: s newStatusOf_def twoTargets_def)
  show ?thesis using 1 2 3 4 e by blast
qed

subsection \<open>The early returns of the pass\<close>

lemma transport_world: "snd (transport w) = w\<lparr>faults := tl (faults w)\<rparr>"
  by (cases "faults w") (simp_all add: transport_def)

lemma GetRuleSet_world:
  "snd (GetRuleSet key w) = w\<lparr>faults := tl (faults w), trace := trace w @ [EvGetRuleSet key]\<rparr>"
proof -
  obtain f w1 where t: "transport (log (EvGetRuleSet key) w) = (f, w1)"
    by (cases "transport (log (EvGetRuleSet key) w)") auto
  have "w1 = snd (transport (log (EvGetRuleSet key) w))" by (simp add: t)
  then have w1: "w1 = w\<lparr>faults := tl (faults w), trace := trace w @ [EvGetRuleSet key]\<rparr>"
    by (simp add: transport_world log_def)
  show ?thesis
    by (simp add: GetRuleSet_def t w1 split: option.splits)
qed

text \<open>
  C4. When the RuleSet is fetched and \<open>SatisfiedExpectations\<close> is false for it, the
  pass returns the empty result without error, and the fetch is all it did: no list of
  pods, no mutation of a target, no status write, no change of an expectation or a queue.
\<close>

theorem stale_ruleset_is_noop:
  assumes "GetRuleSet request w = (Inr ruleSet, w1)"
    and "\<not> SatisfiedExpectations (RulesetVersionExpectation w1) (ObjectKey ruleSet) (ResourceVersion ruleSet)"
  shows "Reconcile r request w = ((\<lparr>Requeue = False, RequeueAfter = 0\<rparr>, None), w1) \<and>
         trace w1 = trace w @ [EvGetRuleSet request] \<and>
         rulesets w1 = rulesets w \<and> pods w1 = pods w \<and>
         RulesetVersionExpectation w1 = RulesetVersionExpectation w \<and>
         PodVersionExpectation w1 = PodVersionExpectation w \<and>
         podEventQueues w1 = podEventQueues w"
proof -
  have "w1 = snd (GetRuleSet request w)" by (simp add: assms(1))
  then have w1: "w1 = w\<lparr>faults := tl (faults w), trace := trace w @ [EvGetRuleSet request]\<rparr>"
    by (simp add: GetRuleSet_world)
  have "Reconcile r request w = ((emptyResult, None), w1)"
    using assms(2) by (simp add: Reconcile_def assms(1))
  then show ?thesis by (simp add: w1 emptyResult_def)
qed

text \<open>A write from version 1 is expected and version 1 is what the pass sees.\<close>

theorem stale_ruleset_is_noop_witness:
  "Reconcile threeStages (''ns'', ''rs'') staleWorld =
     ((\<lparr>Requeue = False, RequeueAfter = 0\<rparr>, None),
      staleWorld\<lparr>trace := [EvGetRuleSet (''ns'', ''rs'')]\<rparr>)"
proof -
  have g: "GetRuleSet (''ns'', ''rs'') staleWorld =
             (Inr plainRuleSet, staleWorld\<lparr>trace := [EvGetRuleSet (''ns'', ''rs'')]\<rparr>)"
    by (simp add: GetRuleSet_def transport_def log_def staleWorld_def emptyWorld_def)
  have s: "\<not> SatisfiedExpectations
             (RulesetVersionExpectation (staleWorld\<lparr>trace := [EvGetRuleSet (''ns'', ''rs'')]\<rparr>))
             (ObjectKey plainRuleSet) (ResourceVersion plainRuleSet)"
    by (simp add: SatisfiedExpectations_def staleWorld_def ObjectKey_def plainRuleSet_def)
  show ?thesis
    using stale_ruleset_is_noop [OF g s, of threeStages] by simp
qed

text \<open>
  C10. When the fetch of the RuleSet answers not-found, the pass returns the empty result
  without error; the world differs by the fetch alone (its entry in the log and the step of
  the transport script), so nothing was selected, mutated, written or enqueued.
\<close>

theorem missing_ruleset_is_noop:
  assumes "fst (GetRuleSet request w) = Inl err" and "IsNotFound err"
  shows "Reconcile r request w =
           ((\<lparr>Requeue = False, RequeueAfter = 0\<rparr>, None),
            w\<lparr>faults := tl (faults w), trace := trace w @ [EvGetRuleSet request]\<rparr>)"
proof -
  obtain x w1 where g: "GetRuleSet request w = (x, w1)"
    by (cases "GetRuleSet request w") auto
  have x: "x = Inl err" using assms(1) by (simp add: g)
  have "w1 = snd (GetRuleSet request w)" by (simp add: g)
  then have w1: "w1 = w\<lparr>faults := tl (faults w), trace := trace w @ [EvGetRuleSet request]\<rparr>"
    by (simp add: GetRuleSet_world)
  show ?thesis
    using assms(2) by (simp add: Reconcile_def g x w1 emptyResult_def)
qed

text \<open>The store holds no RuleSet \<open>ns/rs\<close>.\<close>

theorem missing_ruleset_is_noop_witness:
  "rulesets emptyWorld (''ns'', ''rs'') = None \<and>
   Reconcile threeStages (''ns'', ''rs'') emptyWorld =
     ((\<lparr>Requeue = False, RequeueAfter = 0\<rparr>, None),
      emptyWorld\<lparr>trace := [EvGetRuleSet (''ns'', ''rs'')]\<rparr>)"
proof -
  have g: "fst (GetRuleSet (''ns'', ''rs'') emptyWorld) = Inl NotFound"
    by (simp add: GetRuleSet_def transport_def log_def emptyWorld_def)
  have n: "IsNotFound NotFound" by simp
  show ?thesis
    using missing_ruleset_is_noop [OF g n, of threeStages] by (simp add: emptyWorld_def)
qed

subsection \<open>Write failures of an ownership mutation\<close>

text \<open>
  C2 does not hold of the code. The pod is fetched, the add-ownership mutation changes it,
  and the write fails with \<open>err\<close>, whatever error that is (a conflict, or any other):
  \<open>updateRuleSetOnPod\<close> returns nil after that single attempt, there is no second fetch,
  and the stored pod is still unowned.
\<close>

theorem update_error_is_dropped:
  "updateRuleSetOnPod threeStages ''rs'' thePod AddRuleSetAnno (podWorld [None, Some err]) =
     (None, thePod\<lparr>OwnerRuleSets := [''rs'']\<rparr>,
      podWorld []\<lparr>trace := [EvGetPod (''ns'', ''p''), EvMutate AddRuleSetAnno (''ns'', ''p''),
                              EvUpdatePod (''ns'', ''p'')]\<rparr>)"
  by (simp add: updateRuleSetOnPod_def RetryOnConflict_def threeStages_def numeral_nat
      updateAttempt_def GetPod_def UpdatePod_def transport_def log_def podWorld_def emptyWorld_def
      findPod_def thePod_def)


text \<open>A conflict of the fetch, by contrast, is retried: the pod is fetched twice.\<close>

lemma get_conflict_is_retried:
  "updateRuleSetOnPod threeStages ''rs'' thePod AddRuleSetAnno (podWorld [Some Conflict]) =
     (None, thePod\<lparr>OwnerRuleSets := [''rs''], ResourceVersion := 2\<rparr>,
      emptyWorld\<lparr>pods := [thePod\<lparr>OwnerRuleSets := [''rs''], ResourceVersion := 2\<rparr>],
                 trace := [EvGetPod (''ns'', ''p''), EvGetPod (''ns'', ''p''),
                           EvMutate AddRuleSetAnno (''ns'', ''p''), EvUpdatePod (''ns'', ''p'')]\<rparr>)"
  by (simp add: updateRuleSetOnPod_def RetryOnConflict_def threeStages_def numeral_nat
      updateAttempt_def GetPod_def UpdatePod_def transport_def log_def podWorld_def emptyWorld_def
      findPod_def thePod_def Let_def)

text \<open>
  The pass around it goes on as if the pod were owned: it evaluates the stages, records
  \<open>p\<close> as a target in the status and returns no error, while the stored pod is unchanged.
\<close>

lemma pass_goes_on_after_failed_write:
  "fst (Reconcile threeStages (''ns'', ''rs'') (failingWriteWorld err)) =
     (\<lparr>Requeue = True, RequeueAfter = 2000000000\<rparr>, None) \<and>
   pods (snd (Reconcile threeStages (''ns'', ''rs'') (failingWriteWorld err))) = [thePod] \<and>
   trace (snd (Reconcile threeStages (''ns'', ''rs'') (failingWriteWorld err))) =
     [EvGetRuleSet (''ns'', ''rs''), EvListPods ''ns'',
      EvGetPod (''ns'', ''p''), EvMutate AddRuleSetAnno (''ns'', ''p''), EvUpdatePod (''ns'', ''p''),
      EvProcess ''a'', EvProcess ''b'', EvProcess ''c'',
      EvExpectUpdate ''ns/rs'' 1, EvStatusUpdate (''ns'', ''rs'')] \<and>
   map_option (\<lambda>rs. Targets (Status rs))
     (rulesets (snd (Reconcile threeStages (''ns'', ''rs'') (failingWriteWorld err))) (''ns'', ''rs'')) =
     Some [''p'']"
  by (simp add: Reconcile_def GetRuleSet_def ListPods_def transport_def log_def failingWriteWorld_def
      emptyWorld_def plainRuleSet_def noStatus_def SatisfiedExpectations_def
      deletionCheck_def AddFinalizer_def GetPod_def findPod_def thePod_def threeStages_def
      updateRuleSetOnPod_def RetryOnConflict_def numeral_nat updateAttempt_def UpdatePod_def Let_def
      cleanUpFinalizer_def rulesetTerminatingLabel_def ownAndProcess_def targetPodsOf_def
      DAList.update.rep_eq DAList.empty.rep_eq ObjectKey_def emptyResult_def
      process_def finishPass_def newStatusOf_def syncStatus_def equalStatus_def
      ExpectUpdate_def StatusUpdate_def addQueues_def mergeResult_def updateDetail_def
      oldDetailsOf_def List.map_filter_simps)

subsection \<open>Change notification\<close>

lemma fold_addToEveryQueue:
  "fold (\<lambda>name. addToEveryQueue namespace name) names w =
     w\<lparr>podEventQueues :=
         map (\<lambda>q. if ShuttingDown q then q else q\<lparr>added := added q @ map (Pair namespace) names\<rparr>)
           (podEventQueues w)\<rparr>"
proof (induction names arbitrary: w)
  case Nil
  have "map (\<lambda>q. if ShuttingDown q then q else q\<lparr>added := added q @ map (Pair namespace) []\<rparr>)
          (podEventQueues w) = podEventQueues w"
    by (induction "podEventQueues w") (simp_all add: map_idI)
  then show ?case by simp
next
  case (Cons name names)
  let ?G = "\<lambda>ns q. if ShuttingDown q then q else q\<lparr>added := added q @ map (Pair namespace) ns\<rparr>"
  have "fold (\<lambda>name. addToEveryQueue namespace name) (name # names) w =
          (addToEveryQueue namespace name w)\<lparr>podEventQueues :=
             map (?G names) (podEventQueues (addToEveryQueue namespace name w))\<rparr>"
    by (simp add: Cons.IH)
  also have "\<dots> = w\<lparr>podEventQueues := map (?G (name # names)) (podEventQueues w)\<rparr>"
    by (simp add: addToEveryQueue_def)
  finally show ?case .
qed

lemma first_loop:
  "fold (\<lambda>entry w.
           case entry of (name, old) \<Rightarrow>
             (case DAList.lookup details name of
                None \<Rightarrow> addToEveryQueue namespace name w
              | Some detail \<Rightarrow> if old \<noteq> detail then addToEveryQueue namespace name w else w))
     es w =
   fold (\<lambda>name. addToEveryQueue namespace name)
     (map fst (filter (\<lambda>entry. DAList.lookup details (fst entry) \<noteq> Some (snd entry)) es)) w"
proof (induction es arbitrary: w)
  case Nil
  show ?case by simp
next
  case (Cons e es)
  obtain name old where e: "e = (name, old)" by (cases e)
  show ?case
  proof (cases "DAList.lookup details name")
    case None
    then show ?thesis by (simp add: e Cons.IH)
  next
    case (Some detail)
    then show ?thesis by (cases "old = detail") (auto simp: e Cons.IH)
  qed
qed

lemma second_loop:
  "fold (\<lambda>entry w.
           case entry of (name, detail) \<Rightarrow>
             (case DAList.lookup oldDetails name of
                None \<Rightarrow> addToEveryQueue namespace name w
              | Some old \<Rightarrow> w))
     es w =
   fold (\<lambda>name. addToEveryQueue namespace name)
     (map fst (filter (\<lambda>entry. DAList.lookup oldDetails (fst entry) = None) es)) w"
proof (induction es arbitrary: w)
  case Nil
  show ?case by simp
next
  case (Cons e es)
  obtain name detail where e: "e = (name, detail)" by (cases e)
  show ?case
    by (cases "DAList.lookup oldDetails name") (simp_all add: e Cons.IH)
qed

lemma addQueues_world:
  "addQueues rs details oldDetails w =
     w\<lparr>podEventQueues :=
         map (\<lambda>q. if ShuttingDown q then q
                  else q\<lparr>added := added q @ map (Pair (Namespace rs)) (changedNames details oldDetails)\<rparr>)
           (podEventQueues w)\<rparr>"
proof (cases "podEventQueues w = []")
  case True
  then have "w\<lparr>podEventQueues := []\<rparr> = w" by (cases w) simp
  then show ?thesis using True by (simp add: addQueues_def)
next
  case False
  have "addQueues rs details oldDetails w =
          fold (\<lambda>name. addToEveryQueue (Namespace rs) name) (changedNames details oldDetails) w"
    using False by (simp add: addQueues_def Let_def first_loop second_loop changedNames_def)
  then show ?thesis by (simp only: fold_addToEveryQueue)
qed

lemma entry_lookup:
  "(name, d) \<in> set (DAList.impl_of m) \<longleftrightarrow> DAList.lookup m name = Some d"
  by (simp add: DAList.lookup.rep_eq)

lemma mem_filtered_keys:
  "name \<in> set (map fst (filter P (DAList.impl_of m))) \<longleftrightarrow>
     (\<exists>d. DAList.lookup m name = Some d \<and> P (name, d))"
proof
  assume "name \<in> set (map fst (filter P (DAList.impl_of m)))"
  then obtain e where e: "e \<in> set (DAList.impl_of m)" "P e" "fst e = name"
    by auto
  have p: "(name, snd e) = e" using e(3) by auto
  then have "(name, snd e) \<in> set (DAList.impl_of m)" using e(1) by simp
  then have "DAList.lookup m name = Some (snd e)" by (simp add: entry_lookup)
  moreover have "P (name, snd e)" using e(2) p by simp
  ultimately show "\<exists>d. DAList.lookup m name = Some d \<and> P (name, d)" by blast
next
  assume "\<exists>d. DAList.lookup m name = Some d \<and> P (name, d)"
  then obtain d where d: "DAList.lookup m name = Some d" "P (name, d)" by auto
  have "(name, d) \<in> set (DAList.impl_of m)" using d(1) by (simp add: entry_lookup)
  then have "(name, d) \<in> set (filter P (DAList.impl_of m))" using d(2) by simp
  then have "fst (name, d) \<in> fst ` set (filter P (DAList.impl_of m))" by (rule imageI)
  then show "name \<in> set (map fst (filter P (DAList.impl_of m)))" by simp
qed

lemma set_changedNames:
  "set (changedNames details oldDetails) =
     {name. DAList.lookup oldDetails name \<noteq> DAList.lookup details name}"
proof (rule set_eqI)
  fix name
  show "name \<in> set (changedNames details oldDetails) \<longleftrightarrow>
        name \<in> {name. DAList.lookup oldDetails name \<noteq> DAList.lookup details name}"
    unfolding changedNames_def set_append Un_iff mem_filtered_keys
    by (cases "DAList.lookup oldDetails name"; cases "DAList.lookup details name") auto
qed

lemma distinct_changedNames: "distinct (changedNames details oldDetails)"
proof -
  have a: "distinct (map fst (filter (\<lambda>entry. DAList.lookup details (fst entry) \<noteq> Some (snd entry))
                                (DAList.impl_of oldDetails)))"
    by (rule distinct_map_fst_filter) simp
  have b: "distinct (map fst (filter (\<lambda>entry. DAList.lookup oldDetails (fst entry) = None)
                                (DAList.impl_of details)))"
    by (rule distinct_map_fst_filter) simp
  have c: "set (map fst (filter (\<lambda>entry. DAList.lookup details (fst entry) \<noteq> Some (snd entry))
                                (DAList.impl_of oldDetails))) \<inter>
           set (map fst (filter (\<lambda>entry. DAList.lookup oldDetails (fst entry) = None)
                                (DAList.impl_of details))) = {}"
    unfolding disjoint_iff mem_filtered_keys by auto
  show ?thesis unfolding changedNames_def using a b c by simp
qed

text \<open>
  \<open>addQueues\<close> on its own (lines 267 to 300). Given an old and a new details map, it
  adds to every registered queue that is not shutting down exactly the names whose Detail
  differs between the two maps, names present in only one of them included, each once; a
  name whose Detail is unchanged is not added, a queue that is shutting down is skipped,
  and nothing else in the world changes.
\<close>

theorem addQueues_enqueues_changed_names:
  "addQueues rs details oldDetails w =
     w\<lparr>podEventQueues :=
         map (\<lambda>q. if ShuttingDown q then q
                  else q\<lparr>added := added q @ map (Pair (Namespace rs)) (changedNames details oldDetails)\<rparr>)
           (podEventQueues w)\<rparr> \<and>
   distinct (changedNames details oldDetails) \<and>
   set (changedNames details oldDetails) =
     {name. DAList.lookup oldDetails name \<noteq> DAList.lookup details name}"
  using addQueues_world distinct_changedNames set_changedNames by blast

text \<open>
  For the old details \<open>{A: passed, B: rejected}\<close> and the new details
  \<open>{A: passed, C: passed}\<close> exactly \<open>B\<close> and \<open>C\<close> are enqueued on the live queue.
\<close>

theorem addQueues_enqueues_changed_names_witness:
  "changedNames newAC oldAB = [''B'', ''C''] \<and>
   podEventQueues (addQueues plainRuleSet newAC oldAB twoSinks) =
     [\<lparr>ShuttingDown = False, added = [(''ns'', ''B''), (''ns'', ''C'')]\<rparr>,
      \<lparr>ShuttingDown = True, added = []\<rparr>]"
proof -
  have c: "changedNames newAC oldAB = [''B'', ''C'']"
    by (simp add: changedNames_def newAC_def oldAB_def DAList.update.rep_eq DAList.empty.rep_eq
        DAList.lookup_update passedDetail_def rejectedDetail_def)
  show ?thesis
    using addQueues_enqueues_changed_names [of plainRuleSet newAC oldAB twoSinks]
    by (simp add: c twoSinks_def emptyWorld_def plainRuleSet_def)
qed

text \<open>The second queue is shutting down and is skipped.\<close>

lemma shutting_down_queue_is_skipped:
  "map ShuttingDown (podEventQueues twoSinks) = [False, True] \<and>
   map added (podEventQueues (addQueues plainRuleSet newAC oldAB twoSinks)) =
     [[(''ns'', ''B''), (''ns'', ''C'')], []]"
  by (simp add: addQueues_def twoSinks_def emptyWorld_def plainRuleSet_def newAC_def oldAB_def
      DAList.update.rep_eq DAList.empty.rep_eq DAList.lookup_update passedDetail_def rejectedDetail_def
      addToEveryQueue_def)

subsection \<open>Deletion\<close>

lemma onlyEvents_refl: "onlyEvents P w w"
  by (simp add: onlyEvents_def)

lemma onlyEvents_trans: "onlyEvents P w w1 \<Longrightarrow> onlyEvents P w1 w2 \<Longrightarrow> onlyEvents P w w2"
proof -
  assume "onlyEvents P w w1" "onlyEvents P w1 w2"
  then obtain es1 es2 where 1: "trace w1 = trace w @ es1" "list_all P es1"
    and 2: "trace w2 = trace w1 @ es2" "list_all P es2"
    unfolding onlyEvents_def by auto
  have "trace w2 = trace w @ (es1 @ es2) \<and> list_all P (es1 @ es2)"
    using 1 2 by simp
  then show ?thesis unfolding onlyEvents_def by (rule exI)
qed

lemma onlyEvents_step:
  "trace w' = trace w @ [e] \<Longrightarrow> P e \<Longrightarrow> onlyEvents P w w'"
  unfolding onlyEvents_def by (rule exI[of _ "[e]"]) simp

lemma onlyEvents_same: "trace w' = trace w \<Longrightarrow> onlyEvents P w w'"
  unfolding onlyEvents_def by (rule exI[of _ "[]"]) simp

lemma transport_trace: "trace (snd (transport w)) = trace w"
  by (simp add: transport_world)

lemma GetPod_world:
  "snd (GetPod key w) = w\<lparr>faults := tl (faults w), trace := trace w @ [EvGetPod key]\<rparr>"
proof -
  obtain f w1 where t: "transport (log (EvGetPod key) w) = (f, w1)"
    by (cases "transport (log (EvGetPod key) w)") auto
  have "w1 = snd (transport (log (EvGetPod key) w))" by (simp add: t)
  then have w1: "w1 = w\<lparr>faults := tl (faults w), trace := trace w @ [EvGetPod key]\<rparr>"
    by (simp add: transport_world log_def)
  show ?thesis
    by (simp add: GetPod_def t w1 split: option.splits)
qed

lemma ListPods_world:
  "snd (ListPods r ruleSet w) =
     w\<lparr>faults := tl (faults w), trace := trace w @ [EvListPods (Namespace ruleSet)]\<rparr>"
proof -
  obtain f w1 where t: "transport (log (EvListPods (Namespace ruleSet)) w) = (f, w1)"
    by (cases "transport (log (EvListPods (Namespace ruleSet)) w)") auto
  have "w1 = snd (transport (log (EvListPods (Namespace ruleSet)) w))" by (simp add: t)
  then have w1: "w1 = w\<lparr>faults := tl (faults w), trace := trace w @ [EvListPods (Namespace ruleSet)]\<rparr>"
    by (simp add: transport_world log_def)
  show ?thesis
    by (simp add: ListPods_def t w1 split: option.splits)
qed

lemma UpdatePod_trace:
  "trace (snd (snd (UpdatePod pod w))) = trace w @ [EvUpdatePod (Namespace pod, Name pod)]"
proof -
  obtain f w1 where t: "transport (log (EvUpdatePod (Namespace pod, Name pod)) w) = (f, w1)"
    by (cases "transport (log (EvUpdatePod (Namespace pod, Name pod)) w)") auto
  have "w1 = snd (transport (log (EvUpdatePod (Namespace pod, Name pod)) w))" by (simp add: t)
  then have w1: "trace w1 = trace w @ [EvUpdatePod (Namespace pod, Name pod)]"
    by (simp add: transport_world log_def)
  show ?thesis
    by (simp add: UpdatePod_def t w1 Let_def split: option.splits)
qed

lemma UpdateRuleSet_trace:
  "trace (snd (snd (UpdateRuleSet ruleSet w))) = trace w @ [EvUpdateRuleSet (Namespace ruleSet, Name ruleSet)]"
proof -
  obtain f w1 where t: "transport (log (EvUpdateRuleSet (Namespace ruleSet, Name ruleSet)) w) = (f, w1)"
    by (cases "transport (log (EvUpdateRuleSet (Namespace ruleSet, Name ruleSet)) w)") auto
  have "w1 = snd (transport (log (EvUpdateRuleSet (Namespace ruleSet, Name ruleSet)) w))" by (simp add: t)
  then have w1: "trace w1 = trace w @ [EvUpdateRuleSet (Namespace ruleSet, Name ruleSet)]"
    by (simp add: transport_world log_def)
  show ?thesis
    by (simp add: UpdateRuleSet_def t w1 Let_def split: option.splits)
qed

lemma RemoveFinalizer_cleanup:
  "onlyEvents cleanupEvent w (snd (snd (RemoveFinalizer ruleSet finalizer w)))"
proof (cases "finalizer \<notin> set (Finalizers ruleSet)")
  case True
  then show ?thesis by (simp add: RemoveFinalizer_def onlyEvents_refl)
next
  case False
  then show ?thesis
    by (simp add: RemoveFinalizer_def) (rule onlyEvents_step[OF UpdateRuleSet_trace], simp)
qed

lemma updateAttempt_cleanup:
  "onlyEvents cleanupEvent (snd s) (snd (snd (updateAttempt ruleSet MoveRulesetAnno s)))"
proof -
  obtain pod w where s: "s = (pod, w)" by (cases s)
  obtain x w1 where g: "GetPod (Namespace pod, Name pod) w = (x, w1)"
    by (cases "GetPod (Namespace pod, Name pod) w") auto
  have "w1 = snd (GetPod (Namespace pod, Name pod) w)" by (simp add: g)
  then have t1: "trace w1 = trace w @ [EvGetPod (Namespace pod, Name pod)]"
    by (simp add: GetPod_world)
  have a: "onlyEvents cleanupEvent w w1"
    by (rule onlyEvents_step[OF t1]) simp
  show ?thesis
  proof (cases x)
    case (Inl err)
    then show ?thesis using a by (simp add: updateAttempt_def s g)
  next
    case (Inr live)
    obtain changed pod1 where f: "applyFn MoveRulesetAnno live ruleSet = (changed, pod1)"
      by (cases "applyFn MoveRulesetAnno live ruleSet") auto
    let ?w2 = "log (EvMutate MoveRulesetAnno (Namespace live, Name live)) w1"
    have b: "onlyEvents cleanupEvent w1 ?w2"
      by (rule onlyEvents_step[of _ _ "EvMutate MoveRulesetAnno (Namespace live, Name live)"])
         (simp_all add: log_def)
    have ab: "onlyEvents cleanupEvent w ?w2" by (rule onlyEvents_trans[OF a b])
    show ?thesis
    proof (cases changed)
      case False
      then show ?thesis using ab by (simp add: updateAttempt_def s g Inr f Let_def del: applyFn.simps)
    next
      case True
      obtain err pod2 w3 where u: "UpdatePod pod1 ?w2 = (err, pod2, w3)"
        by (cases "UpdatePod pod1 ?w2") auto
      have "w3 = snd (snd (UpdatePod pod1 ?w2))" by (simp add: u)
      then have "trace w3 = trace ?w2 @ [EvUpdatePod (Namespace pod1, Name pod1)]"
        by (simp add: UpdatePod_trace)
      then have c: "onlyEvents cleanupEvent ?w2 w3"
        by (rule onlyEvents_step) simp
      have "onlyEvents cleanupEvent w w3" by (rule onlyEvents_trans[OF ab c])
      then show ?thesis using True by (simp add: updateAttempt_def s g Inr f Let_def u del: applyFn.simps)
    qed
  qed
qed

lemma OnError_cleanup:
  "(\<And>s. onlyEvents P (snd s) (snd (snd (fn s)))) \<Longrightarrow>
   onlyEvents P (snd s) (snd (snd (OnError steps retriable fn lastErr s)))"
proof (induction steps arbitrary: lastErr s)
  case 0
  show ?case by (simp add: onlyEvents_refl)
next
  case (Suc steps)
  obtain e s' where f: "fn s = (e, s')" by (cases "fn s") auto
  have a: "onlyEvents P (snd s) (snd s')" using Suc.prems[of s] by (simp add: f)
  show ?case
  proof (cases e)
    case None
    then show ?thesis using a by (simp add: f)
  next
    case (Some err)
    show ?thesis
    proof (cases "retriable err")
      case True
      have "onlyEvents P (snd s') (snd (snd (OnError steps retriable fn (Some err) s')))"
        by (rule Suc.IH) (rule Suc.prems)
      then have "onlyEvents P (snd s) (snd (snd (OnError steps retriable fn (Some err) s')))"
        by (rule onlyEvents_trans[OF a])
      then show ?thesis using True by (simp add: f Some)
    next
      case False
      then show ?thesis using a by (simp add: f Some)
    qed
  qed
qed

lemma updateRuleSetOnPod_cleanup:
  "onlyEvents cleanupEvent w (snd (snd (updateRuleSetOnPod r ruleSet pod MoveRulesetAnno w)))"
proof -
  have "onlyEvents cleanupEvent (snd (pod, w))
          (snd (snd (OnError (DefaultRetrySteps r) IsConflict (updateAttempt ruleSet MoveRulesetAnno) None (pod, w))))"
    by (rule OnError_cleanup) (rule updateAttempt_cleanup)
  then show ?thesis
    by (simp add: updateRuleSetOnPod_def RetryOnConflict_def split: prod.splits)
qed

lemma cleanUpTargets_cleanup:
  "onlyEvents cleanupEvent w (snd (cleanUpTargets r ruleSet names w))"
proof (induction names arbitrary: w)
  case Nil
  show ?case by (simp add: onlyEvents_refl)
next
  case (Cons name names)
  obtain x w1 where g: "GetPod (Namespace ruleSet, name) w = (x, w1)"
    by (cases "GetPod (Namespace ruleSet, name) w") auto
  have "w1 = snd (GetPod (Namespace ruleSet, name) w)" by (simp add: g)
  then have t1: "trace w1 = trace w @ [EvGetPod (Namespace ruleSet, name)]"
    by (simp add: GetPod_world)
  have a: "onlyEvents cleanupEvent w w1"
    by (rule onlyEvents_step[OF t1]) simp
  show ?case
  proof (cases x)
    case (Inl err)
    show ?thesis
    proof (cases "IsNotFound err")
      case True
      have "onlyEvents cleanupEvent w (snd (cleanUpTargets r ruleSet names w1))"
        by (rule onlyEvents_trans[OF a Cons.IH])
      then show ?thesis using True by (simp add: g Inl)
    next
      case False
      then show ?thesis using a by (simp add: g Inl)
    qed
  next
    case (Inr pod)
    obtain e pod1 w2 where u: "updateRuleSetOnPod r (Name ruleSet) pod MoveRulesetAnno w1 = (e, pod1, w2)"
      by (cases "updateRuleSetOnPod r (Name ruleSet) pod MoveRulesetAnno w1") auto
    have "w2 = snd (snd (updateRuleSetOnPod r (Name ruleSet) pod MoveRulesetAnno w1))" by (simp add: u)
    then have b: "onlyEvents cleanupEvent w1 w2" by (simp add: updateRuleSetOnPod_cleanup)
    have ab: "onlyEvents cleanupEvent w w2" by (rule onlyEvents_trans[OF a b])
    show ?thesis
    proof (cases e)
      case None
      have "onlyEvents cleanupEvent w (snd (cleanUpTargets r ruleSet names w2))"
        by (rule onlyEvents_trans[OF ab Cons.IH])
      then show ?thesis by (simp add: g Inr u None)
    next
      case (Some err)
      then show ?thesis using ab by (simp add: g Inr u)
    qed
  qed
qed

lemma deletionCheck_cleanup:
  assumes "DeletionTimestamp ruleSet \<noteq> None"
    and "Labels ruleSet rulesetTerminatingLabel \<noteq> None \<or> \<not> hasRunningPod selectedPods"
  shows "onlyEvents cleanupEvent w (snd (deletionCheck r ruleSet selectedPods w))"
proof -
  obtain e w1 where c: "cleanUpPod r ruleSet w = (e, w1)"
    by (cases "cleanUpPod r ruleSet w") auto
  have "w1 = snd (cleanUpTargets r ruleSet (Targets (Status ruleSet)) w)"
    using c by (simp add: cleanUpPod_def)
  then have a: "onlyEvents cleanupEvent w w1" by (simp add: cleanUpTargets_cleanup)
  show ?thesis
  proof (cases e)
    case (Some err)
    then show ?thesis using assms a by (simp add: deletionCheck_def c)
  next
    case None
    obtain e2 rs2 w2 where f: "RemoveFinalizer ruleSet cleanUpFinalizer w1 = (e2, rs2, w2)"
      by (cases "RemoveFinalizer ruleSet cleanUpFinalizer w1") auto
    have "w2 = snd (snd (RemoveFinalizer ruleSet cleanUpFinalizer w1))" by (simp add: f)
    then have "onlyEvents cleanupEvent w1 w2" by (simp add: RemoveFinalizer_cleanup)
    then have "onlyEvents cleanupEvent w w2" by (rule onlyEvents_trans[OF a])
    then show ?thesis using assms by (simp add: deletionCheck_def c None f)
  qed
qed

lemma GetRuleSet_Inr:
  "GetRuleSet key w = (Inr ruleSet, w1) \<Longrightarrow> rulesets w key = Some ruleSet"
proof -
  assume g: "GetRuleSet key w = (Inr ruleSet, w1)"
  obtain f w0 where t: "transport (log (EvGetRuleSet key) w) = (f, w0)"
    by (cases "transport (log (EvGetRuleSet key) w)") auto
  have "w0 = snd (transport (log (EvGetRuleSet key) w))" by (simp add: t)
  then have "rulesets w0 = rulesets w" by (simp add: transport_world log_def)
  then show ?thesis
    using g by (simp add: GetRuleSet_def t split: option.splits)
qed

lemma ListPods_Inr:
  "ListPods r ruleSet w = (Inr selectedPods, w1) \<Longrightarrow>
   selectedPods = filter (\<lambda>p. Namespace p = Namespace ruleSet \<and> Matches r ruleSet p) (pods w)"
proof -
  assume g: "ListPods r ruleSet w = (Inr selectedPods, w1)"
  obtain f w0 where t: "transport (log (EvListPods (Namespace ruleSet)) w) = (f, w0)"
    by (cases "transport (log (EvListPods (Namespace ruleSet)) w)") auto
  have "w0 = snd (transport (log (EvListPods (Namespace ruleSet)) w))" by (simp add: t)
  then have "pods w0 = pods w" by (simp add: transport_world log_def)
  then show ?thesis
    using g by (simp add: ListPods_def t split: option.splits)
qed

text \<open>
  The branch of the deletion check that returns (lines 137 to 142). In a pass on a RuleSet
  whose deletion timestamp is set and whose cleanup is allowed (the terminating label is
  present, or no selected pod is without deletion timestamp), whatever the transport
  does, the pass performs no add-ownership mutation and evaluates no stage: everything it
  does is a read, a remove-ownership mutation with its write, or the write that removes
  the finalizer.
\<close>

theorem cleanup_pass_skips_claim_and_stages:
  assumes "rulesets w request = Some ruleSet"
    and "DeletionTimestamp ruleSet \<noteq> None"
    and "Labels ruleSet rulesetTerminatingLabel \<noteq> None \<or>
         \<not> hasRunningPod (filter (\<lambda>p. Namespace p = Namespace ruleSet \<and> Matches r ruleSet p) (pods w))"
  shows "\<exists>es. trace (snd (Reconcile r request w)) = trace w @ es \<and> list_all cleanupEvent es"
proof -
  obtain x w1 where g: "GetRuleSet request w = (x, w1)"
    by (cases "GetRuleSet request w") auto
  have "w1 = snd (GetRuleSet request w)" by (simp add: g)
  then have w1: "w1 = w\<lparr>faults := tl (faults w), trace := trace w @ [EvGetRuleSet request]\<rparr>"
    by (simp add: GetRuleSet_world)
  have a: "onlyEvents cleanupEvent w w1"
    by (rule onlyEvents_step[of _ _ "EvGetRuleSet request"]) (simp_all add: w1)
  have "onlyEvents cleanupEvent w (snd (Reconcile r request w))"
  proof (cases x)
    case (Inl err)
    then show ?thesis using a by (simp add: Reconcile_def g)
  next
    case (Inr ruleSet')
    have rs: "ruleSet' = ruleSet"
      using GetRuleSet_Inr[of request w ruleSet' w1] assms(1) by (simp add: g Inr)
    show ?thesis
    proof (cases "SatisfiedExpectations (RulesetVersionExpectation w1) (ObjectKey ruleSet) (ResourceVersion ruleSet)")
      case False
      then show ?thesis using a by (simp add: Reconcile_def g Inr rs)
    next
      case True
      obtain y w2 where l: "ListPods r ruleSet w1 = (y, w2)"
        by (cases "ListPods r ruleSet w1") auto
      have "w2 = snd (ListPods r ruleSet w1)" by (simp add: l)
      then have w2: "trace w2 = trace w1 @ [EvListPods (Namespace ruleSet)]"
        by (simp add: ListPods_world)
      have b: "onlyEvents cleanupEvent w1 w2"
        by (rule onlyEvents_step[OF w2]) simp
      have ab: "onlyEvents cleanupEvent w w2" by (rule onlyEvents_trans[OF a b])
      show ?thesis
      proof (cases y)
        case (Inl err)
        then show ?thesis using ab True by (simp add: Reconcile_def g Inr rs l)
      next
        case (Inr selectedPods)
        have "selectedPods = filter (\<lambda>p. Namespace p = Namespace ruleSet \<and> Matches r ruleSet p) (pods w1)"
          using ListPods_Inr[of r ruleSet w1 selectedPods w2] by (simp add: l Inr)
        then have sel: "selectedPods = filter (\<lambda>p. Namespace p = Namespace ruleSet \<and> Matches r ruleSet p) (pods w)"
          by (simp add: w1)
        have "Labels ruleSet rulesetTerminatingLabel \<noteq> None \<or> \<not> hasRunningPod selectedPods"
          using assms(3) by (simp add: sel)
        then have "onlyEvents cleanupEvent w2 (snd (deletionCheck r ruleSet selectedPods w2))"
          by (rule deletionCheck_cleanup[OF assms(2)])
        then have "onlyEvents cleanupEvent w (snd (deletionCheck r ruleSet selectedPods w2))"
          by (rule onlyEvents_trans[OF ab])
        then show ?thesis using True by (simp add: Reconcile_def g \<open>x = Inr ruleSet'\<close> rs l Inr)
      qed
    qed
  qed
  then show ?thesis by (simp add: onlyEvents_def)
qed

lemma forced_trace:
  "trace (snd (Reconcile threeStages (''ns'', ''rs'') forcedWorld)) =
     [EvGetRuleSet (''ns'', ''rs''), EvListPods ''ns'', EvGetPod (''ns'', ''p''), EvGetPod (''ns'', ''p''),
      EvMutate MoveRulesetAnno (''ns'', ''p''), EvUpdatePod (''ns'', ''p''),
      EvUpdateRuleSet (''ns'', ''rs'')]"
  by (simp add: Reconcile_def GetRuleSet_def ListPods_def transport_def log_def forcedWorld_def forcedRuleSet_def
      emptyWorld_def terminatingRuleSet_def plainRuleSet_def noStatus_def SatisfiedExpectations_def
      deletionCheck_def cleanUpPod_def GetPod_def findPod_def thePod_def threeStages_def
      updateRuleSetOnPod_def RetryOnConflict_def numeral_nat updateAttempt_def UpdatePod_def Let_def
      RemoveFinalizer_def UpdateRuleSet_def cleanUpFinalizer_def rulesetTerminatingLabel_def)

text \<open>
  With the terminating label the pass releases the recorded target and removes the
  finalizer, and does nothing else.
\<close>

theorem cleanup_pass_skips_claim_and_stages_witness:
  "rulesets forcedWorld (''ns'', ''rs'') = Some forcedRuleSet \<and>
   DeletionTimestamp forcedRuleSet = Some 1 \<and>
   Labels forcedRuleSet rulesetTerminatingLabel = Some ''true'' \<and>
   (\<exists>es. trace (snd (Reconcile threeStages (''ns'', ''rs'') forcedWorld)) = trace forcedWorld @ es \<and>
         list_all cleanupEvent es) \<and>
   trace (snd (Reconcile threeStages (''ns'', ''rs'') forcedWorld)) =
     [EvGetRuleSet (''ns'', ''rs''), EvListPods ''ns'', EvGetPod (''ns'', ''p''), EvGetPod (''ns'', ''p''),
      EvMutate MoveRulesetAnno (''ns'', ''p''), EvUpdatePod (''ns'', ''p''),
      EvUpdateRuleSet (''ns'', ''rs'')]"
proof -
  have 1: "rulesets forcedWorld (''ns'', ''rs'') = Some forcedRuleSet"
    by (simp add: forcedWorld_def emptyWorld_def)
  have 2: "DeletionTimestamp forcedRuleSet \<noteq> None"
    by (simp add: forcedRuleSet_def terminatingRuleSet_def)
  have 3: "Labels forcedRuleSet rulesetTerminatingLabel \<noteq> None \<or>
         \<not> hasRunningPod (filter (\<lambda>p. Namespace p = Namespace forcedRuleSet \<and> Matches threeStages forcedRuleSet p)
                              (pods forcedWorld))"
    by (simp add: forcedRuleSet_def)
  have 4: "DeletionTimestamp forcedRuleSet = Some 1"
    by (simp add: forcedRuleSet_def terminatingRuleSet_def)
  have 5: "Labels forcedRuleSet rulesetTerminatingLabel = Some ''true''"
    by (simp add: forcedRuleSet_def)
  show ?thesis
    using cleanup_pass_skips_claim_and_stages [OF 1 2 3] forced_trace 1 4 5 by simp
qed

text \<open>
  The other branch (lines 143 to 145) has no return. With the deletion timestamp set, no
  terminating label and a selected pod without deletion timestamp, the pass records the
  warning, sets \<open>result.RequeueAfter\<close> to five seconds and goes on to line 150 as a
  pass without deletion timestamp does.
\<close>

lemma blocked_falls_through:
  assumes "DeletionTimestamp ruleSet \<noteq> None"
    and "Labels ruleSet rulesetTerminatingLabel = None"
    and "hasRunningPod selectedPods"
  shows "deletionCheck r ruleSet selectedPods w =
           ownAndProcess r ruleSet selectedPods (emptyResult\<lparr>RequeueAfter := 5 * 1000000000\<rparr>)
             (log (EvRecorder ''BlockProtection'') w)"
  using assms by (simp add: deletionCheck_def)

text \<open>
  Lines 150 to 233 return \<open>result\<close> only together with an error (lines 173 and 181); a
  return without error is \<open>reconcile.Result{}\<close> (line 154) or \<open>res\<close> (line 233). So
  whatever was put into \<open>result\<close>, a pass that ends without error returns the same: the
  five seconds of line 144 never reach the caller of a successful pass.
\<close>

lemma named_result_is_dropped:
  assumes "snd (fst (ownAndProcess r ruleSet selectedPods result w)) = None"
  shows "ownAndProcess r ruleSet selectedPods result' w = ownAndProcess r ruleSet selectedPods result w"
proof (cases "selectNames (PodVersionExpectation w) selectedPods {}")
  case None
  then show ?thesis by (simp add: ownAndProcess_def)
next
  case (Some selectedPodNames)
  note sel = Some
  obtain e1 w1 where a: "removeUnselected r ruleSet selectedPodNames (Targets (Status ruleSet)) w = (e1, w1)"
    by (cases "removeUnselected r ruleSet selectedPodNames (Targets (Status ruleSet)) w") auto
  show ?thesis
  proof (cases e1)
    case (Some err)
    then show ?thesis using assms by (simp add: ownAndProcess_def sel a Let_def)
  next
    case None
    note e1 = None
    let ?tp = "targetPodsOf selectedPods"
    obtain e2 tp1 w2 where b: "ownSelected r ruleSet (DAList.impl_of ?tp) ?tp w1 = (e2, tp1, w2)"
      by (cases "ownSelected r ruleSet (DAList.impl_of ?tp) ?tp w1") auto
    show ?thesis
    proof (cases e2)
      case (Some err)
      then show ?thesis using assms by (simp add: ownAndProcess_def sel a e1 b Let_def)
    next
      case None
      then show ?thesis by (simp add: ownAndProcess_def sel a e1 b Let_def)
    qed
  qed
qed

text \<open>
  A pass on a RuleSet with deletion timestamp whose only selected pod \<open>p\<close> is running,
  without terminating label, and a stage that reports nothing.
\<close>

lemma blocked_pass:
  "Reconcile quietStage (''ns'', ''rs'') blockedWorld =
     ((\<lparr>Requeue = False, RequeueAfter = 0\<rparr>, None),
      blockedWorld
        \<lparr>rulesets := [(''ns'', ''rs'') \<mapsto>
            terminatingRuleSet
              \<lparr>ResourceVersion := 2,
               Status := \<lparr>Targets = [''p''], ObservedGeneration = 1, Details = [],
                          RuleStates = [], UpdateTime = Some 0\<rparr>\<rparr>],
         pods := [thePod\<lparr>ResourceVersion := 2, OwnerRuleSets := [''rs'']\<rparr>],
         RulesetVersionExpectation := [''ns/rs'' \<mapsto> 1],
         trace :=
           [EvGetRuleSet (''ns'', ''rs''), EvListPods ''ns'', EvRecorder ''BlockProtection'',
            EvGetPod (''ns'', ''p''), EvMutate AddRuleSetAnno (''ns'', ''p''), EvUpdatePod (''ns'', ''p''),
            EvProcess ''s'',
            EvExpectUpdate ''ns/rs'' 1, EvStatusUpdate (''ns'', ''rs'')]\<rparr>)"
  by (simp add: Reconcile_def GetRuleSet_def ListPods_def transport_def log_def blockedWorld_def
      emptyWorld_def terminatingRuleSet_def plainRuleSet_def noStatus_def SatisfiedExpectations_def
      deletionCheck_def GetPod_def findPod_def thePod_def quietStage_def
      updateRuleSetOnPod_def RetryOnConflict_def numeral_nat updateAttempt_def UpdatePod_def Let_def
      cleanUpFinalizer_def rulesetTerminatingLabel_def ownAndProcess_def targetPodsOf_def
      DAList.update.rep_eq DAList.empty.rep_eq ObjectKey_def emptyResult_def
      fst_process process_def finishPass_def newStatusOf_def syncStatus_def equalStatus_def
      ExpectUpdate_def StatusUpdate_def addQueues_def mergeResult_def updateDetail_def
      List.map_filter_simps)

text \<open>
  C1 does not hold of the code. In that pass cleanup is blocked: the deletion timestamp
  is set, the selected pod \<open>p\<close> has none, and the terminating label is absent. The pass
  applies the add-ownership mutation to \<open>p\<close> and writes the pod, evaluates the stage and
  writes the status, and returns the empty result, without the re-check after five seconds.
\<close>

theorem blocked_pass_claims_and_evaluates:
  "DeletionTimestamp terminatingRuleSet = Some 1 \<and>
   Labels terminatingRuleSet rulesetTerminatingLabel = None \<and>
   DeletionTimestamp thePod = None \<and>
   fst (Reconcile quietStage (''ns'', ''rs'') blockedWorld) =
     (\<lparr>Requeue = False, RequeueAfter = 0\<rparr>, None) \<and>
   trace (snd (Reconcile quietStage (''ns'', ''rs'') blockedWorld)) =
     [EvGetRuleSet (''ns'', ''rs''), EvListPods ''ns'', EvRecorder ''BlockProtection'',
      EvGetPod (''ns'', ''p''), EvMutate AddRuleSetAnno (''ns'', ''p''), EvUpdatePod (''ns'', ''p''),
      EvProcess ''s'',
      EvExpectUpdate ''ns/rs'' 1, EvStatusUpdate (''ns'', ''rs'')] \<and>
   pods (snd (Reconcile quietStage (''ns'', ''rs'') blockedWorld)) =
     [thePod\<lparr>ResourceVersion := 2, OwnerRuleSets := [''rs'']\<rparr>]"
  by (simp add: blocked_pass)
     (simp add: terminatingRuleSet_def plainRuleSet_def thePod_def rulesetTerminatingLabel_def)


subsection \<open>The notifier inside a pass\<close>

lemma changedNames_same:
  assumes "DAList.lookup oldDetails = DAList.lookup details"
  shows "changedNames details oldDetails = []"
proof -
  have "set (changedNames details oldDetails) = {}"
    by (simp add: set_changedNames assms)
  then show ?thesis by simp
qed

lemma addQueues_same:
  assumes "DAList.lookup oldDetails = DAList.lookup details"
  shows "addQueues rs details oldDetails w = w"
proof -
  have m: "map (\<lambda>q. if ShuttingDown q then q else q\<lparr>added := added q @ map (Pair (Namespace rs)) []\<rparr>)
          (podEventQueues w) = podEventQueues w"
    by (induction "podEventQueues w") (simp_all add: map_idI)
  have "addQueues rs details oldDetails w = w\<lparr>podEventQueues := podEventQueues w\<rparr>"
    by (simp only: addQueues_world changedNames_same[OF assms] m)
  then show ?thesis by simp
qed

lemma lookup_fold_update_named:
  "distinct (map Detail.Name ds) \<Longrightarrow>
   DAList.lookup (fold (\<lambda>de m. DAList.update (Detail.Name de) de m) ds m0) k =
     (case find (\<lambda>d. Detail.Name d = k) ds of Some d \<Rightarrow> Some d | None \<Rightarrow> DAList.lookup m0 k)"
proof (induction ds arbitrary: m0)
  case Nil
  show ?case by simp
next
  case (Cons d ds)
  from Cons.prems have dist: "distinct (map Detail.Name ds)" and n0: "Detail.Name d \<notin> Detail.Name ` set ds"
    by simp_all
  have nin: "\<forall>x\<in>set ds. Detail.Name x \<noteq> Detail.Name d"
  proof
    fix x assume "x \<in> set ds"
    then have "Detail.Name x \<in> Detail.Name ` set ds" by (rule imageI)
    then show "Detail.Name x \<noteq> Detail.Name d" using n0 by (rule_tac notI) simp
  qed
  have f: "Detail.Name d = k \<Longrightarrow> find (\<lambda>x. Detail.Name x = k) ds = None"
    using nin by (auto simp: find_None_iff)
  show ?case
    using Cons.IH[OF dist, of "DAList.update (Detail.Name d) d m0"] f
    by (auto simp: DAList.lookup_update split: option.splits)
qed

lemma find_map_filter_named:
  assumes "namedByKey details" "distinct ks"
  shows "find (\<lambda>d. Detail.Name d = k) (List.map_filter (DAList.lookup details) ks) =
           (if k \<in> set ks then DAList.lookup details k else None)"
  using assms(2)
proof (induction ks)
  case Nil
  show ?case by (simp add: List.map_filter_simps)
next
  case (Cons a ks)
  then have IH: "find (\<lambda>d. Detail.Name d = k) (List.map_filter (DAList.lookup details) ks) =
           (if k \<in> set ks then DAList.lookup details k else None)"
    and a: "a \<notin> set ks" by simp_all
  show ?case
  proof (cases "DAList.lookup details a")
    case None
    then show ?thesis using IH a by (auto simp: List.map_filter_simps)
  next
    case (Some d)
    then have "Detail.Name d = a" using assms(1) unfolding namedByKey_def by blast
    then show ?thesis using IH a Some by (auto simp: List.map_filter_simps)
  qed
qed

lemma lookup_oldDetailsOf_Details:
  assumes "namedByKey details"
  shows "DAList.lookup (oldDetailsOf (Details (newStatusOf r ruleSet names details ruleStates))) =
           DAList.lookup details"
proof (rule ext)
  fix k
  let ?ks = "sort (map fst (DAList.impl_of details))"
  let ?ds = "List.map_filter (DAList.lookup details) ?ks"
  have ds: "Details (newStatusOf r ruleSet names details ruleStates) = ?ds"
    by (simp add: newStatusOf_def Let_def)
  have "map Detail.Name ?ds = ?ks"
    using Details_names[OF assms, of r ruleSet names ruleStates] by (simp add: ds)
  then have dist: "distinct (map Detail.Name ?ds)" by simp
  have "DAList.lookup (oldDetailsOf ?ds) k =
          (case find (\<lambda>d. Detail.Name d = k) ?ds of Some d \<Rightarrow> Some d | None \<Rightarrow> None)"
    unfolding oldDetailsOf_def by (subst lookup_fold_update_named[OF dist]) (simp cong: option.case_cong)
  also have "\<dots> = (if k \<in> set ?ks then DAList.lookup details k else None)"
    by (subst find_map_filter_named[OF assms]) (simp_all split: option.splits)
  also have "\<dots> = DAList.lookup details k"
  proof (cases "k \<in> set ?ks")
    case True
    then show ?thesis by simp
  next
    case False
    then have "k \<notin> fst ` set (DAList.impl_of details)" by simp
    then have "map_of (DAList.impl_of details) k = None" by (simp add: map_of_eq_None_iff)
    then show ?thesis using False by (simp add: DAList.lookup.rep_eq)
  qed
  finally show "DAList.lookup (oldDetailsOf (Details (newStatusOf r ruleSet names details ruleStates))) k =
                  DAList.lookup details k"
    by (simp add: ds)
qed

lemma syncStatus_Details:
  "syncStatus ruleSet newStatus w = (None, ruleSet1, w1) \<Longrightarrow>
   Details (Status ruleSet1) = Details newStatus \<and> podEventQueues w1 = podEventQueues w"
proof -
  assume s: "syncStatus ruleSet newStatus w = (None, ruleSet1, w1)"
  show ?thesis
  proof (cases "equalStatus newStatus (Status ruleSet)")
    case True
    then have "ruleSet1 = ruleSet \<and> w1 = w" using s by (simp add: syncStatus_def)
    then show ?thesis using True by (simp add: equalStatus_def)
  next
    case False
    let ?w0 = "ExpectUpdate (ObjectKey ruleSet) (ResourceVersion ruleSet) w"
    obtain e rs2 w2 where u: "StatusUpdate (ruleSet\<lparr>Status := newStatus\<rparr>) ?w0 = (e, rs2, w2)"
      by (cases "StatusUpdate (ruleSet\<lparr>Status := newStatus\<rparr>) ?w0") auto
    have e: "e = None" "ruleSet1 = rs2" "w1 = w2"
      using s False by (auto simp: syncStatus_def Let_def u split: option.splits)
    obtain f w3 where t: "transport (log (EvStatusUpdate (Namespace ruleSet, Name ruleSet)) ?w0) = (f, w3)"
      by (cases "transport (log (EvStatusUpdate (Namespace ruleSet, Name ruleSet)) ?w0)") auto
    have "w3 = snd (transport (log (EvStatusUpdate (Namespace ruleSet, Name ruleSet)) ?w0))" by (simp add: t)
    then have q: "podEventQueues w3 = podEventQueues w"
      by (simp add: transport_world log_def ExpectUpdate_def)
    have "Details (Status rs2) = Details newStatus \<and> podEventQueues w2 = podEventQueues w"
      using u e(1) q by (auto simp: StatusUpdate_def t Let_def split: option.splits if_splits)
    then show ?thesis by (simp add: e)
  qed
qed

text \<open>
  Inside a pass the old details are read from \<open>ruleSet.Status\<close> after line 219 has
  assigned the new status to it (or after \<open>equalStatus\<close> has found the two equal), so the
  two maps handed to \<open>addQueues\<close> agree and nothing is enqueued.
\<close>

theorem finishPass_never_enqueues:
  assumes "namedByKey details"
  shows "podEventQueues (snd (finishPass r ruleSet names (shouldRetry, interval, details, ruleStates) w)) =
           podEventQueues w"
proof -
  let ?new = "newStatusOf r ruleSet names details ruleStates"
  obtain e ruleSet1 w1 where s: "syncStatus ruleSet ?new w = (e, ruleSet1, w1)"
    by (cases "syncStatus ruleSet ?new w") auto
  show ?thesis
  proof (cases e)
    case None
    have d: "Details (Status ruleSet1) = Details ?new" and q: "podEventQueues w1 = podEventQueues w"
      using syncStatus_Details[of ruleSet ?new w ruleSet1 w1] s None by simp_all
    have "DAList.lookup (oldDetailsOf (Details (Status ruleSet1))) = DAList.lookup details"
      by (simp only: d lookup_oldDetailsOf_Details[OF assms])
    then have "addQueues ruleSet1 details (oldDetailsOf (Details (Status ruleSet1))) w1 = w1"
      by (rule addQueues_same)
    then show ?thesis by (simp add: finishPass_def Let_def s None q)
  next
    case (Some err)
    have q: "podEventQueues w1 = podEventQueues w"
    proof (cases "equalStatus ?new (Status ruleSet)")
      case True
      then show ?thesis using s Some by (simp add: syncStatus_def)
    next
      case False
      let ?w0 = "ExpectUpdate (ObjectKey ruleSet) (ResourceVersion ruleSet) w"
      obtain e2 rs2 w2 where u: "StatusUpdate (ruleSet\<lparr>Status := ?new\<rparr>) ?w0 = (e2, rs2, w2)"
        by (cases "StatusUpdate (ruleSet\<lparr>Status := ?new\<rparr>) ?w0") auto
      obtain f w3 where t: "transport (log (EvStatusUpdate (Namespace ruleSet, Name ruleSet)) ?w0) = (f, w3)"
        by (cases "transport (log (EvStatusUpdate (Namespace ruleSet, Name ruleSet)) ?w0)") auto
      have "w3 = snd (transport (log (EvStatusUpdate (Namespace ruleSet, Name ruleSet)) ?w0))" by (simp add: t)
      then have q3: "podEventQueues w3 = podEventQueues w"
        by (simp add: transport_world log_def ExpectUpdate_def)
      have "podEventQueues w2 = podEventQueues w"
        using u q3 by (auto simp: StatusUpdate_def t Let_def split: option.splits if_splits)
      then show ?thesis
        using s False by (auto simp: syncStatus_def Let_def u DeleteExpectations_def log_def split: option.splits)
    qed
    then show ?thesis by (simp add: finishPass_def Let_def s Some)
  qed
qed

lemma UpdatePod_queues:
  "podEventQueues (snd (snd (UpdatePod pod w))) = podEventQueues w"
proof -
  obtain f w1 where t: "transport (log (EvUpdatePod (Namespace pod, Name pod)) w) = (f, w1)"
    by (cases "transport (log (EvUpdatePod (Namespace pod, Name pod)) w)") auto
  have "w1 = snd (transport (log (EvUpdatePod (Namespace pod, Name pod)) w))" by (simp add: t)
  then have w1: "podEventQueues w1 = podEventQueues w"
    by (simp add: transport_world log_def)
  show ?thesis
    by (simp add: UpdatePod_def t w1 Let_def split: option.splits)
qed

lemma UpdateRuleSet_queues:
  "podEventQueues (snd (snd (UpdateRuleSet ruleSet w))) = podEventQueues w"
proof -
  obtain f w1 where t: "transport (log (EvUpdateRuleSet (Namespace ruleSet, Name ruleSet)) w) = (f, w1)"
    by (cases "transport (log (EvUpdateRuleSet (Namespace ruleSet, Name ruleSet)) w)") auto
  have "w1 = snd (transport (log (EvUpdateRuleSet (Namespace ruleSet, Name ruleSet)) w))" by (simp add: t)
  then have w1: "podEventQueues w1 = podEventQueues w"
    by (simp add: transport_world log_def)
  show ?thesis
    by (simp add: UpdateRuleSet_def t w1 Let_def split: option.splits)
qed

lemma AddFinalizer_queues:
  "podEventQueues (snd (snd (AddFinalizer ruleSet finalizer w))) = podEventQueues w"
  by (simp add: AddFinalizer_def UpdateRuleSet_queues)

lemma RemoveFinalizer_queues:
  "podEventQueues (snd (snd (RemoveFinalizer ruleSet finalizer w))) = podEventQueues w"
  by (simp add: RemoveFinalizer_def UpdateRuleSet_queues)

lemma updateAttempt_queues:
  "podEventQueues (snd (snd (updateAttempt ruleSet fn s))) = podEventQueues (snd s)"
proof -
  obtain pod w where s: "s = (pod, w)" by (cases s)
  obtain x w1 where g: "GetPod (Namespace pod, Name pod) w = (x, w1)"
    by (cases "GetPod (Namespace pod, Name pod) w") auto
  have "w1 = snd (GetPod (Namespace pod, Name pod) w)" by (simp add: g)
  then have q1: "podEventQueues w1 = podEventQueues w"
    by (simp add: GetPod_world)
  show ?thesis
  proof (cases x)
    case (Inl err)
    then show ?thesis using q1 by (simp add: updateAttempt_def s g)
  next
    case (Inr live)
    obtain changed pod1 where f: "applyFn fn live ruleSet = (changed, pod1)"
      by (cases "applyFn fn live ruleSet") auto
    let ?w2 = "log (EvMutate fn (Namespace live, Name live)) w1"
    have q2: "podEventQueues ?w2 = podEventQueues w" using q1 by (simp add: log_def)
    show ?thesis
    proof (cases changed)
      case False
      then show ?thesis using q2 by (simp add: updateAttempt_def s g Inr f Let_def del: applyFn.simps)
    next
      case True
      obtain err pod2 w3 where u: "UpdatePod pod1 ?w2 = (err, pod2, w3)"
        by (cases "UpdatePod pod1 ?w2") auto
      have "w3 = snd (snd (UpdatePod pod1 ?w2))" by (simp add: u)
      then have "podEventQueues w3 = podEventQueues w"
        using q2 by (simp add: UpdatePod_queues)
      then show ?thesis using True by (simp add: updateAttempt_def s g Inr f Let_def u del: applyFn.simps)
    qed
  qed
qed

lemma OnError_queues:
  "(\<And>s. podEventQueues (snd (snd (fn s))) = podEventQueues (snd s)) \<Longrightarrow>
   podEventQueues (snd (snd (OnError steps retriable fn lastErr s))) = podEventQueues (snd s)"
proof (induction steps arbitrary: lastErr s)
  case 0
  show ?case by simp
next
  case (Suc steps)
  obtain e s' where f: "fn s = (e, s')" by (cases "fn s") auto
  have a: "podEventQueues (snd s') = podEventQueues (snd s)" using Suc.prems[of s] by (simp add: f)
  show ?case
  proof (cases e)
    case None
    then show ?thesis using a by (simp add: f)
  next
    case (Some err)
    show ?thesis
    proof (cases "retriable err")
      case True
      have "podEventQueues (snd (snd (OnError steps retriable fn (Some err) s'))) = podEventQueues (snd s')"
        by (rule Suc.IH) (rule Suc.prems)
      then show ?thesis using True a by (simp add: f Some)
    next
      case False
      then show ?thesis using a by (simp add: f Some)
    qed
  qed
qed

lemma updateRuleSetOnPod_queues:
  "podEventQueues (snd (snd (updateRuleSetOnPod r ruleSet pod fn w))) = podEventQueues w"
proof -
  have "podEventQueues (snd (snd (OnError (DefaultRetrySteps r) IsConflict (updateAttempt ruleSet fn) None (pod, w)))) =
          podEventQueues (snd (pod, w))"
    by (rule OnError_queues) (rule updateAttempt_queues)
  then show ?thesis
    by (simp add: updateRuleSetOnPod_def RetryOnConflict_def split: prod.splits)
qed

lemma cleanUpTargets_queues:
  "podEventQueues (snd (cleanUpTargets r ruleSet names w)) = podEventQueues w"
proof (induction names arbitrary: w)
  case Nil
  show ?case by simp
next
  case (Cons name names)
  obtain x w1 where g: "GetPod (Namespace ruleSet, name) w = (x, w1)"
    by (cases "GetPod (Namespace ruleSet, name) w") auto
  have "w1 = snd (GetPod (Namespace ruleSet, name) w)" by (simp add: g)
  then have q1: "podEventQueues w1 = podEventQueues w"
    by (simp add: GetPod_world)
  show ?case
  proof (cases x)
    case (Inl err)
    then show ?thesis using q1 by (simp add: g Cons.IH)
  next
    case (Inr pod)
    obtain e pod1 w2 where u: "updateRuleSetOnPod r (Name ruleSet) pod MoveRulesetAnno w1 = (e, pod1, w2)"
      by (cases "updateRuleSetOnPod r (Name ruleSet) pod MoveRulesetAnno w1") auto
    have "w2 = snd (snd (updateRuleSetOnPod r (Name ruleSet) pod MoveRulesetAnno w1))" by (simp add: u)
    then have q2: "podEventQueues w2 = podEventQueues w" using q1 by (simp add: updateRuleSetOnPod_queues)
    show ?thesis
      by (cases e) (simp_all add: g Inr u q2 Cons.IH)
  qed
qed

lemma removeUnselected_queues:
  "podEventQueues (snd (removeUnselected r ruleSet selectedPodNames names w)) = podEventQueues w"
proof (induction names arbitrary: w)
  case Nil
  show ?case by simp
next
  case (Cons name names)
  show ?case
  proof (cases "name \<in> selectedPodNames")
    case True
    then show ?thesis by (simp add: Cons.IH)
  next
    case False
    obtain e pod1 w1 where u:
      "updateRuleSetOnPod r (Name ruleSet) (podNamed name (Namespace ruleSet)) MoveRulesetAnno w = (e, pod1, w1)"
      by (cases "updateRuleSetOnPod r (Name ruleSet) (podNamed name (Namespace ruleSet)) MoveRulesetAnno w") auto
    have "w1 = snd (snd (updateRuleSetOnPod r (Name ruleSet) (podNamed name (Namespace ruleSet)) MoveRulesetAnno w))"
      by (simp add: u)
    then have q1: "podEventQueues w1 = podEventQueues w" by (simp add: updateRuleSetOnPod_queues)
    show ?thesis
      by (cases e) (simp_all add: False u q1 Cons.IH)
  qed
qed

lemma ownSelected_queues:
  "podEventQueues (snd (snd (ownSelected r ruleSet entries targetPods w))) = podEventQueues w"
proof (induction entries arbitrary: targetPods w)
  case Nil
  show ?case by simp
next
  case (Cons entry entries)
  obtain e pod1 w1 where u:
    "updateRuleSetOnPod r (Name ruleSet) (snd entry) AddRuleSetAnno w = (e, pod1, w1)"
    by (cases "updateRuleSetOnPod r (Name ruleSet) (snd entry) AddRuleSetAnno w") auto
  have "w1 = snd (snd (updateRuleSetOnPod r (Name ruleSet) (snd entry) AddRuleSetAnno w))"
    by (simp add: u)
  then have q1: "podEventQueues w1 = podEventQueues w" by (simp add: updateRuleSetOnPod_queues)
  show ?case
    by (cases e) (simp_all add: u q1 Cons.IH)
qed

lemma process_queues:
  "podEventQueues (snd (process r rs ps w)) = podEventQueues w"
  by (simp add: process_def processStages_world)

lemma ownAndProcess_queues:
  "podEventQueues (snd (ownAndProcess r ruleSet selectedPods result w)) = podEventQueues w"
proof (cases "selectNames (PodVersionExpectation w) selectedPods {}")
  case None
  then show ?thesis by (simp add: ownAndProcess_def)
next
  case (Some selectedPodNames)
  obtain e1 w1 where a: "removeUnselected r ruleSet selectedPodNames (Targets (Status ruleSet)) w = (e1, w1)"
    by (cases "removeUnselected r ruleSet selectedPodNames (Targets (Status ruleSet)) w") auto
  have "w1 = snd (removeUnselected r ruleSet selectedPodNames (Targets (Status ruleSet)) w)" by (simp add: a)
  then have q1: "podEventQueues w1 = podEventQueues w" by (simp add: removeUnselected_queues)
  show ?thesis
  proof (cases e1)
    case (Some err)
    then show ?thesis using q1 by (simp add: ownAndProcess_def \<open>selectNames (PodVersionExpectation w) selectedPods {} = Some selectedPodNames\<close> a Let_def)
  next
    case None
    let ?tp = "targetPodsOf selectedPods"
    obtain e2 tp1 w2 where b: "ownSelected r ruleSet (DAList.impl_of ?tp) ?tp w1 = (e2, tp1, w2)"
      by (cases "ownSelected r ruleSet (DAList.impl_of ?tp) ?tp w1") auto
    have "w2 = snd (snd (ownSelected r ruleSet (DAList.impl_of ?tp) ?tp w1))" by (simp add: b)
    then have q2: "podEventQueues w2 = podEventQueues w" using q1 by (simp add: ownSelected_queues)
    show ?thesis
    proof (cases e2)
      case (Some err)
      then show ?thesis using q2
        by (simp add: ownAndProcess_def \<open>selectNames (PodVersionExpectation w) selectedPods {} = Some selectedPodNames\<close> a None b Let_def)
    next
      case None
      obtain sr iv ds rss w3 where p: "process r ruleSet tp1 w2 = ((sr, iv, ds, rss), w3)"
        by (cases "process r ruleSet tp1 w2") auto
      have "w3 = snd (process r ruleSet tp1 w2)" by (simp add: p)
      then have q3: "podEventQueues w3 = podEventQueues w" using q2 by (simp add: process_queues)
      have "ds = fst (snd (snd (fst (process r ruleSet tp1 w2))))" by (simp add: p)
      then have n: "namedByKey ds" by (simp add: process_namedByKey)
      have "podEventQueues (snd (finishPass r ruleSet selectedPodNames (sr, iv, ds, rss) w3)) = podEventQueues w"
        using finishPass_never_enqueues[OF n] q3 by simp
      then show ?thesis
        using None \<open>e1 = None\<close>
        by (simp add: ownAndProcess_def \<open>selectNames (PodVersionExpectation w) selectedPods {} = Some selectedPodNames\<close> a b p Let_def)
    qed
  qed
qed

lemma deletionCheck_queues:
  "podEventQueues (snd (deletionCheck r ruleSet selectedPods w)) = podEventQueues w"
proof (cases "DeletionTimestamp ruleSet \<noteq> None")
  case True
  show ?thesis
  proof (cases "Labels ruleSet rulesetTerminatingLabel \<noteq> None \<or> \<not> hasRunningPod selectedPods")
    case False
    have "podEventQueues (log (EvRecorder ''BlockProtection'') w) = podEventQueues w"
      by (simp add: log_def)
    then show ?thesis using True False by (simp add: deletionCheck_def ownAndProcess_queues)
  next
    case c: True
    obtain e w1 where a: "cleanUpPod r ruleSet w = (e, w1)"
      by (cases "cleanUpPod r ruleSet w") auto
    have "w1 = snd (cleanUpTargets r ruleSet (Targets (Status ruleSet)) w)"
      using a by (simp add: cleanUpPod_def)
    then have q1: "podEventQueues w1 = podEventQueues w" by (simp add: cleanUpTargets_queues)
    show ?thesis
    proof (cases e)
      case (Some err)
      then show ?thesis using True c q1 by (simp add: deletionCheck_def a)
    next
      case None
      obtain e2 rs2 w2 where f: "RemoveFinalizer ruleSet cleanUpFinalizer w1 = (e2, rs2, w2)"
        by (cases "RemoveFinalizer ruleSet cleanUpFinalizer w1") auto
      have "w2 = snd (snd (RemoveFinalizer ruleSet cleanUpFinalizer w1))" by (simp add: f)
      then have "podEventQueues w2 = podEventQueues w" using q1 by (simp add: RemoveFinalizer_queues)
      then show ?thesis using True c by (simp add: deletionCheck_def a None f)
    qed
  qed
next
  case False
  obtain e rs1 w1 where f: "AddFinalizer ruleSet cleanUpFinalizer w = (e, rs1, w1)"
    by (cases "AddFinalizer ruleSet cleanUpFinalizer w") auto
  have "w1 = snd (snd (AddFinalizer ruleSet cleanUpFinalizer w))" by (simp add: f)
  then have q1: "podEventQueues w1 = podEventQueues w" by (simp add: AddFinalizer_queues)
  show ?thesis
    using False q1 by (cases e) (simp_all add: deletionCheck_def f ownAndProcess_queues)
qed

text \<open>No pass adds a key to a queue, whatever the store holds and the stages return.\<close>

theorem Reconcile_never_enqueues:
  "podEventQueues (snd (Reconcile r request w)) = podEventQueues w"
proof -
  obtain x w1 where g: "GetRuleSet request w = (x, w1)"
    by (cases "GetRuleSet request w") auto
  have "w1 = snd (GetRuleSet request w)" by (simp add: g)
  then have q1: "podEventQueues w1 = podEventQueues w" by (simp add: GetRuleSet_world)
  show ?thesis
  proof (cases x)
    case (Inl err)
    then show ?thesis using q1 by (simp add: Reconcile_def g)
  next
    case (Inr ruleSet)
    obtain y w2 where l: "ListPods r ruleSet w1 = (y, w2)"
      by (cases "ListPods r ruleSet w1") auto
    have "w2 = snd (ListPods r ruleSet w1)" by (simp add: l)
    then have q2: "podEventQueues w2 = podEventQueues w" using q1 by (simp add: ListPods_world)
    show ?thesis
      using q1 q2 by (cases y) (simp_all add: Reconcile_def g Inr l deletionCheck_queues)
  qed
qed

text \<open>
  C3 does not hold of the code. The stored status has the details
  \<open>{A: passed, B: rejected}\<close>, the pass computes and stores \<open>{A: passed, C: passed}\<close>,
  and the live queue receives neither \<open>B\<close> nor \<open>C\<close>: by the time the old details are
  read (lines 227 to 231), line 219 has replaced the stored status by the new one.
\<close>

theorem pass_from_AB_to_AC_enqueues_nothing:
  "Details (Status storedAB) = [passedDetail ''A'', rejectedDetail ''B''] \<and>
   (case Reconcile passesAC (''ns'', ''rs'') notifyWorld of
      ((res, err), w') \<Rightarrow>
        err = None \<and>
        map_option (\<lambda>rs. Details (Status rs)) (rulesets w' (''ns'', ''rs'')) =
          Some [passedDetail ''A'', passedDetail ''C''] \<and>
        podEventQueues w' = [\<lparr>ShuttingDown = False, added = []\<rparr>])"
  by (simp add: Reconcile_def GetRuleSet_def ListPods_def transport_def log_def notifyWorld_def
      storedAB_def passesAC_def twoTargets_def
      emptyWorld_def plainRuleSet_def noStatus_def SatisfiedExpectations_def
      deletionCheck_def AddFinalizer_def GetPod_def findPod_def thePod_def podNamed_def
      updateRuleSetOnPod_def RetryOnConflict_def numeral_nat updateAttempt_def UpdatePod_def Let_def
      cleanUpFinalizer_def rulesetTerminatingLabel_def ownAndProcess_def targetPodsOf_def
      DAList.update.rep_eq DAList.empty.rep_eq DAList.lookup.rep_eq ObjectKey_def emptyResult_def
      process_def finishPass_def newStatusOf_def syncStatus_def equalStatus_def
      ExpectUpdate_def StatusUpdate_def addQueues_def mergeResult_def updateDetail_def
      updateDetailEntry_def passedDetail_def rejectedDetail_def oldDetailsOf_def
      List.map_filter_simps addToEveryQueue_def)

subsection \<open>Two passes in a row\<close>

text \<open>
  The first pass releases \<open>B\<close> (which is gone), claims \<open>A\<close> and \<open>C\<close>, evaluates the stage
  and writes the status, arming the expectation before the write.
\<close>

lemma first_pass_writes_status:
  "Reconcile passesAC (''ns'', ''rs'') notifyWorld =
     ((\<lparr>Requeue = False, RequeueAfter = 0\<rparr>, None), afterFirstPass)"
  by (simp add: Reconcile_def GetRuleSet_def ListPods_def transport_def log_def notifyWorld_def
      storedAB_def passesAC_def twoTargets_def afterFirstPass_def
      emptyWorld_def plainRuleSet_def noStatus_def SatisfiedExpectations_def
      deletionCheck_def AddFinalizer_def GetPod_def findPod_def thePod_def podNamed_def
      updateRuleSetOnPod_def RetryOnConflict_def numeral_nat updateAttempt_def UpdatePod_def Let_def
      cleanUpFinalizer_def rulesetTerminatingLabel_def ownAndProcess_def targetPodsOf_def
      DAList.update.rep_eq DAList.empty.rep_eq DAList.lookup.rep_eq ObjectKey_def emptyResult_def
      process_def finishPass_def newStatusOf_def syncStatus_def equalStatus_def
      ExpectUpdate_def StatusUpdate_def addQueues_def mergeResult_def updateDetail_def
      updateDetailEntry_def passedDetail_def rejectedDetail_def oldDetailsOf_def
      List.map_filter_simps addToEveryQueue_def)

text \<open>
  A second pass at a later time, with nothing changed in between, finds the pods owned
  and the status equal: it writes neither a pod nor the status and touches no
  expectation.
\<close>

lemma second_pass_writes_nothing:
  "Reconcile (passesAC\<lparr>Now := 7\<rparr>) (''ns'', ''rs'') afterFirstPass =
     ((\<lparr>Requeue = False, RequeueAfter = 0\<rparr>, None),
      afterFirstPass
        \<lparr>trace := trace afterFirstPass @
           [EvGetRuleSet (''ns'', ''rs''), EvListPods ''ns'',
            EvGetPod (''ns'', ''A''), EvMutate AddRuleSetAnno (''ns'', ''A''),
            EvGetPod (''ns'', ''C''), EvMutate AddRuleSetAnno (''ns'', ''C''),
            EvProcess ''s'']\<rparr>)"
  by (simp add: Reconcile_def GetRuleSet_def ListPods_def transport_def log_def notifyWorld_def
      storedAB_def passesAC_def twoTargets_def afterFirstPass_def
      emptyWorld_def plainRuleSet_def noStatus_def SatisfiedExpectations_def
      deletionCheck_def AddFinalizer_def GetPod_def findPod_def thePod_def podNamed_def
      updateRuleSetOnPod_def RetryOnConflict_def numeral_nat updateAttempt_def UpdatePod_def Let_def
      cleanUpFinalizer_def rulesetTerminatingLabel_def ownAndProcess_def targetPodsOf_def
      DAList.update.rep_eq DAList.empty.rep_eq DAList.lookup.rep_eq ObjectKey_def emptyResult_def
      process_def finishPass_def newStatusOf_def syncStatus_def equalStatus_def
      ExpectUpdate_def StatusUpdate_def addQueues_def mergeResult_def updateDetail_def
      updateDetailEntry_def passedDetail_def rejectedDetail_def oldDetailsOf_def
      List.map_filter_simps addToEveryQueue_def)

end
